theory Spec2Isabelle
  imports Complex_Main "HOL-Library.Word" "HOL-Library.Sublist" "HOL-Library.AList"
begin

section \<open>Ethiopia Tender Watcher: a shallow embedding of main.py\<close>

text \<open>
  Conventions of the model.
  \<^item> A Python \<open>str\<close> is a \<open>string\<close>, read as the UTF-8 bytes of the text; \<open>str.lower\<close> and
    \<open>str.strip\<close> are modelled on the ASCII range, bytes above it are left alone.
  \<^item> A Python \<open>dict\<close> is an association list in insertion order: \<open>d[k] = v\<close> is
    \<open>AList.update\<close> (replace in place, else append), \<open>d.get(k, dflt)\<close> is \<open>dict_get\<close>.
  \<^item> Epoch timestamps (Python floats) are \<open>real\<close>.
  \<^item> Everything outside the process is a field of \<open>world\<close>: the state file, the
    successive readings of \<open>time.time()\<close>, the draws of \<open>random.random()\<close>, the outcomes
    of \<open>requests.get\<close> and of the SMTP session, the sleeps performed and the mail sent.
  \<^item> Functions of third-party libraries (hashlib, requests, BeautifulSoup, urllib) are the
    fields of \<open>lib\<close>; the environment variables are the fields of \<open>config\<close>.
  \<^item> An exception is a value \<open>Inl e\<close> of a sum; logging is not modelled.
\<close>

subsection \<open>Strings\<close>

definition lower_char :: "char \<Rightarrow> char" where
  "lower_char c =
     (let n = (of_char c :: nat) in if 65 \<le> n \<and> n \<le> 90 then char_of (n + 32) else c)"

definition lower :: "string \<Rightarrow> string" where
  "lower s = map lower_char s"





definition dict_get :: "('k \<times> 'v) list \<Rightarrow> 'k \<Rightarrow> 'v \<Rightarrow> 'v" where
  "dict_get d k dflt = (case map_of d k of None \<Rightarrow> dflt | Some v \<Rightarrow> v)"

subsection \<open>Configuration, libraries and the outside world\<close>

datatype exc =
    RequestError string
  | HTTPError nat
  | ParseError string
  | SMTPError string
  | TypeError

record response =
  status_code :: nat
  resp_text :: string

record config =
  keywords_file :: "string list option"
  ALERT_TO :: string
  SMTP_USER :: "string option"
  SMTP_PASS :: "string option"
  HEARTBEAT_HOUR_UTC :: int
  HEARTBEAT_ENABLE :: bool
  utc_offset :: int

text \<open>
  \<open>keywords_file\<close> is \<open>None\<close> when config/keywords.txt does not exist, else its lines
  (\<open>read_text().splitlines()\<close>). \<open>utc_offset\<close> is the host's local standard time, in seconds
  east of UTC, which \<open>time.mktime\<close> consults.
\<close>

record lib =
  sha256 :: "string \<Rightarrow> 256 word"
  raise_for_status :: "response \<Rightarrow> exc option"
  select_anchors :: "string \<Rightarrow> exc + (string \<times> string option) list"
  urljoin :: "string \<Rightarrow> string \<Rightarrow> exc + string"

text \<open>
  \<open>select_anchors html\<close> stands for \<open>BeautifulSoup(html, "lxml").select("a")\<close>, each anchor
  given as \<open>(a.get_text(strip=True), a.get("href"))\<close>; it may raise.
\<close>

datatype stored_file = Absent | Garbled | Stored "(string \<times> real) list"

record world =
  state_file :: stored_file
  clock :: "nat \<Rightarrow> real"
  clock_reads :: nat
  rand :: "nat \<Rightarrow> real"
  rand_draws :: nat
  net :: "nat \<Rightarrow> string \<Rightarrow> exc + response"
  requests :: nat
  smtp :: "nat \<Rightarrow> exc option"
  smtp_sessions :: nat
  slept :: "real list"
  outbox :: "(string \<times> string) list"

definition time_time :: "world \<Rightarrow> real \<times> world" where
  "time_time w = (clock w (clock_reads w), w\<lparr>clock_reads := Suc (clock_reads w)\<rparr>)"

definition random_random :: "world \<Rightarrow> real \<times> world" where
  "random_random w = (rand w (rand_draws w), w\<lparr>rand_draws := Suc (rand_draws w)\<rparr>)"

definition time_sleep :: "real \<Rightarrow> world \<Rightarrow> world" where
  "time_sleep s w = w\<lparr>slept := slept w @ [s]\<rparr>"

definition requests_get :: "string \<Rightarrow> world \<Rightarrow> (exc + response) \<times> world" where
  "requests_get url w = (net w (requests w) url, w\<lparr>requests := Suc (requests w)\<rparr>)"

definition RETRY_MAX :: nat where
  "RETRY_MAX = 3"

definition RETRY_BASE_SLEEP :: nat where
  "RETRY_BASE_SLEEP = 3"

subsection \<open>Utilities\<close>




definition relevant_score :: "string set \<Rightarrow> string \<Rightarrow> nat" where
  "relevant_score KW txt = (let t = lower txt in (\<Sum>k \<in> Set.filter (\<lambda>k. sublist k t) KW. 1))"

fun hex_fixed :: "nat \<Rightarrow> nat \<Rightarrow> string" where
  "hex_fixed 0 v = []"
| "hex_fixed (Suc k) v = hex_fixed k (v div 16) @ [''0123456789abcdef'' ! (v mod 16)]"

text \<open>\<open>hexdigest()\<close> of a 32-byte digest: 64 lowercase hexadecimal digits.\<close>

definition hexdigest :: "256 word \<Rightarrow> string" where
  "hexdigest h = hex_fixed 64 (unat h)"

definition uid_text :: "string \<Rightarrow> string \<Rightarrow> string \<Rightarrow> string \<Rightarrow> string" where
  "uid_text title buyer deadline url = title @ ''|'' @ buyer @ ''|'' @ deadline @ ''|'' @ url"

definition uid_hash :: "lib \<Rightarrow> string \<Rightarrow> string \<Rightarrow> string \<Rightarrow> string \<Rightarrow> string" where
  "uid_hash L title buyer deadline url = hexdigest (sha256 L (uid_text title buyer deadline url))"

definition load_state :: "world \<Rightarrow> (string \<times> real) list" where
  "load_state w = (case state_file w of Stored st \<Rightarrow> st | Garbled \<Rightarrow> [] | Absent \<Rightarrow> [])"

definition save_state :: "(string \<times> real) list \<Rightarrow> world \<Rightarrow> world" where
  "save_state st w = w\<lparr>state_file := Stored st\<rparr>"

text \<open>
  The \<open>for attempt in range(1, RETRY_MAX + 1)\<close> loop of \<open>http_get\<close>, over the attempts still
  to make; falling out of the loop is \<open>raise last_exc\<close>.
\<close>

fun http_get_loop ::
  "lib \<Rightarrow> string \<Rightarrow> nat list \<Rightarrow> exc option \<Rightarrow> world \<Rightarrow> (exc + response) \<times> world" where
  "http_get_loop L url [] last_exc w =
     (case last_exc of Some e \<Rightarrow> (Inl e, w) | None \<Rightarrow> (Inl TypeError, w))"
| "http_get_loop L url (attempt # rest) last_exc w =
     (case requests_get url w of (got, w1) \<Rightarrow>
        (case (case got of
                 Inl e \<Rightarrow> Inl e
               | Inr r \<Rightarrow> (case raise_for_status L r of Some e \<Rightarrow> Inl e | None \<Rightarrow> Inr r)) of
           Inr r \<Rightarrow> (Inr r, w1)
         | Inl e \<Rightarrow>
             (case random_random w1 of (jitter, w2) \<Rightarrow>
                http_get_loop L url rest (Some e)
                  (time_sleep (real RETRY_BASE_SLEEP * real attempt + jitter) w2))))"

definition http_get :: "lib \<Rightarrow> string \<Rightarrow> world \<Rightarrow> (exc + response) \<times> world" where
  "http_get L url w = http_get_loop L url [1..<RETRY_MAX + 1] None w"

text \<open>
  \<open>send_email\<close>: skipped when a credential or the recipient is missing (\<open>None\<close> or empty);
  otherwise one SMTP session, which delivers the message or raises.
\<close>

definition truthy :: "string option \<Rightarrow> bool" where
  "truthy s = (case s of None \<Rightarrow> False | Some v \<Rightarrow> v \<noteq> [])"

definition send_email :: "config \<Rightarrow> string \<Rightarrow> string \<Rightarrow> world \<Rightarrow> (exc + unit) \<times> world" where
  "send_email cfg subject html w =
     (if \<not> (truthy (SMTP_USER cfg) \<and> truthy (SMTP_PASS cfg) \<and> ALERT_TO cfg \<noteq> []) then (Inr (), w)
      else (case smtp w (smtp_sessions w) of
              Some e \<Rightarrow> (Inl e, w\<lparr>smtp_sessions := Suc (smtp_sessions w)\<rparr>)
            | None \<Rightarrow> (Inr (), w\<lparr>smtp_sessions := Suc (smtp_sessions w),
                                  outbox := outbox w @ [(subject, html)]\<rparr>)))"

subsection \<open>Source parsers\<close>

type_synonym notice = "(string \<times> string) list"

type_synonym fetcher = "world \<Rightarrow> (exc + notice list) \<times> world"

definition mk_notice :: "string \<Rightarrow> string \<Rightarrow> string \<Rightarrow> notice" where
  "mk_notice title full source =
     [(''title'', title), (''buyer'', []), (''deadline'', []), (''url'', full), (''source'', source)]"

text \<open>
  The anchor loop shared by both parsers, with the list \<open>notices\<close> built so far.
  \<open>urljoin\<close> may raise (\<open>ValueError\<close> on a malformed link); the raise leaves the loop.
\<close>

fun scan_anchors ::
  "string set \<Rightarrow> lib \<Rightarrow> string \<Rightarrow> string \<Rightarrow> (string \<times> string option) list \<Rightarrow> notice list
     \<Rightarrow> exc + notice list" where
  "scan_anchors KW L base source [] notices = Inr notices"
| "scan_anchors KW L base source ((title, href) # rest) notices =
     (case href of
        None \<Rightarrow> scan_anchors KW L base source rest notices
      | Some h \<Rightarrow>
          if title = [] \<or> h = [] then scan_anchors KW L base source rest notices
          else (case urljoin L base h of
                  Inl e \<Rightarrow> Inl e
                | Inr full \<Rightarrow>
                    if relevant_score KW title < 1 then scan_anchors KW L base source rest notices
                    else scan_anchors KW L base source rest
                           (notices @ [mk_notice title full source])))"

text \<open>
  The body both parsers share: fetch, parse, scan; any exception inside the \<open>try\<close> gives
  the empty list, so the parser itself never raises.
\<close>

definition fetch_anchor_page :: "string set \<Rightarrow> lib \<Rightarrow> string \<Rightarrow> string \<Rightarrow> fetcher" where
  "fetch_anchor_page KW L base source w =
     (case http_get L base w of
        (Inl e, w1) \<Rightarrow> (Inr [], w1)
      | (Inr r, w1) \<Rightarrow>
          (case select_anchors L (resp_text r) of
             Inl e \<Rightarrow> (Inr [], w1)
           | Inr anchors \<Rightarrow>
               (case scan_anchors KW L base source anchors [] of
                  Inl e \<Rightarrow> (Inr [], w1)
                | Inr notices \<Rightarrow> (Inr notices, w1))))"

definition fetch_ethiopian_tender_com :: "string set \<Rightarrow> lib \<Rightarrow> fetcher" where
  "fetch_ethiopian_tender_com KW L =
     fetch_anchor_page KW L ''https://www.ethiopiantender.com/'' ''EthiopianTender.com''"

definition fetch_globaltenders_et_sw :: "string set \<Rightarrow> lib \<Rightarrow> fetcher" where
  "fetch_globaltenders_et_sw KW L =
     fetch_anchor_page KW L ''https://www.globaltenders.com/ethiopia/et-software-tenders''
       ''GlobalTenders (ET Software)''"

definition SOURCES :: "string set \<Rightarrow> lib \<Rightarrow> fetcher list" where
  "SOURCES KW L = [fetch_ethiopian_tender_com KW L, fetch_globaltenders_et_sw KW L]"

subsection \<open>Core run loop\<close>

type_synonym cycle_vars = "(string \<times> real) list \<times> notice list \<times> nat"

text \<open>The two expressions the loop body computes from a candidate: \<open>uid\<close> and \<open>text_blob\<close>.\<close>

definition notice_uid :: "lib \<Rightarrow> notice \<Rightarrow> string" where
  "notice_uid L n =
     uid_hash L (dict_get n ''title'' []) (dict_get n ''buyer'' []) (dict_get n ''deadline'' [])
       (dict_get n ''url'' [])"

definition text_blob :: "notice \<Rightarrow> string" where
  "text_blob n = dict_get n ''title'' [] @ '' '' @ dict_get n ''url'' []"

text \<open>
  The inner loop \<open>for n in items\<close> on the variables \<open>(state, new_notices, checked_count)\<close>;
  \<open>seen\<close> is the set built before the loops and never updated.
\<close>

fun scan_items ::
  "string set \<Rightarrow> lib \<Rightarrow> string set \<Rightarrow> notice list \<Rightarrow> cycle_vars \<Rightarrow> world \<Rightarrow> cycle_vars \<times> world" where
  "scan_items KW L seen [] vars w = (vars, w)"
| "scan_items KW L seen (n # items) (state, new_notices, checked_count) w =
     (if notice_uid L n \<in> seen
      then scan_items KW L seen items (state, new_notices, checked_count + 1) w
      else if relevant_score KW (text_blob n) < 1
      then scan_items KW L seen items (state, new_notices, checked_count + 1) w
      else (case time_time w of (now, w1) \<Rightarrow>
              scan_items KW L seen items
                (AList.update (notice_uid L n) now state, new_notices @ [n], checked_count + 1) w1))"

text \<open>The outer loop \<open>for fetcher in SOURCES\<close>: a fetcher that raises leaves \<open>items = []\<close>.\<close>

fun run_fetchers ::
  "string set \<Rightarrow> lib \<Rightarrow> string set \<Rightarrow> fetcher list \<Rightarrow> cycle_vars \<Rightarrow> world \<Rightarrow> cycle_vars \<times> world" where
  "run_fetchers KW L seen [] vars w = (vars, w)"
| "run_fetchers KW L seen (fetcher # rest) vars w =
     (case fetcher w of (res, w1) \<Rightarrow>
        (case scan_items KW L seen (case res of Inl e \<Rightarrow> [] | Inr items \<Rightarrow> items) vars w1 of
           (vars1, w2) \<Rightarrow> run_fetchers KW L seen rest vars1 w2))"

definition run_cycle ::
  "string set \<Rightarrow> lib \<Rightarrow> fetcher list \<Rightarrow> world \<Rightarrow> (notice list \<times> nat) \<times> world" where
  "run_cycle KW L sources w =
     (let state0 = load_state w; seen = set (map fst state0) in
      case run_fetchers KW L seen sources (state0, [], 0) w of
        ((state, new_notices, checked_count), w1) \<Rightarrow>
          (case time_time w1 of (now, w2) \<Rightarrow>
             (let cutoff = now - 90 * 24 * 3600;
                  trimmed = filter (\<lambda>(k, v). v \<ge> cutoff) state
              in ((new_notices, checked_count),
                  save_state (if length trimmed \<noteq> length state then trimmed else state) w2))))"

subsection \<open>Notifier\<close>






text \<open>
  \<open>time.struct_time\<close>. The calendar date (\<open>tm_year\<close>, \<open>tm_mon\<close>, \<open>tm_mday\<close>, which fix
  \<open>tm_wday\<close> and \<open>tm_yday\<close>) is kept as one field, the number of the day counted from
  1970-01-01: the Gregorian calendar maps dates to day numbers one to one.
  \<open>gmtime\<close> breaks a timestamp down in UTC; \<open>mktime\<close> reads a broken-down time as
  local standard time (\<open>tm_isdst = 0\<close>) and carries an out-of-range hour over.
\<close>

record struct_time =
  tm_date :: int
  tm_hour :: int
  tm_min :: int
  tm_sec :: int
  tm_isdst :: int

definition gmtime :: "real \<Rightarrow> struct_time" where
  "gmtime secs =
     (let s = \<lfloor>secs\<rfloor>
      in \<lparr>tm_date = s div 86400, tm_hour = (s mod 86400) div 3600, tm_min = (s mod 3600) div 60,
          tm_sec = s mod 60, tm_isdst = 0\<rparr>)"

definition mktime :: "config \<Rightarrow> struct_time \<Rightarrow> real" where
  "mktime cfg t =
     real_of_int (86400 * tm_date t + 3600 * tm_hour t + 60 * tm_min t + tm_sec t - utc_offset cfg)"

definition maybe_send_heartbeat :: "config \<Rightarrow> world \<Rightarrow> (exc + bool) \<times> world" where
  "maybe_send_heartbeat cfg w =
     (if \<not> HEARTBEAT_ENABLE cfg then (Inr False, w)
      else
        (let state = load_state w; last_hb = dict_get state ''_last_heartbeat'' 0 in
         case time_time w of (now, w1) \<Rightarrow>
           (let t = gmtime now;
                target_today = mktime cfg
                  (t\<lparr>tm_hour := HEARTBEAT_HOUR_UTC cfg, tm_min := 0, tm_sec := 0\<rparr>)
            in if now \<ge> target_today \<and> last_hb < target_today then
                 (case send_email cfg ''[ET Tenders] Daily heartbeat''
                         ''<p>Watcher is running.</p>'' w1 of
                    (Inl e, w2) \<Rightarrow> (Inl e, w2)
                  | (Inr u, w2) \<Rightarrow>
                      (Inr True, save_state (AList.update ''_last_heartbeat'' now state) w2))
               else (Inr False, w1))))"

section \<open>Vocabulary of the properties\<close>

text \<open>
  What the run loop decides for one candidate, given the fingerprints \<open>seen\<close> loaded at
  the start of the run.
\<close>

definition accepted :: "string set \<Rightarrow> lib \<Rightarrow> string set \<Rightarrow> notice \<Rightarrow> bool" where
  "accepted KW L seen n \<longleftrightarrow> notice_uid L n \<notin> seen \<and> relevant_score KW (text_blob n) \<ge> 1"

text \<open>The candidates handed to the loop by a list of adapter outcomes, in order.\<close>

definition delivered :: "(exc + notice list) list \<Rightarrow> notice list" where
  "delivered outs = concat (map (\<lambda>r. case r of Inl e \<Rightarrow> [] | Inr items \<Rightarrow> items) outs)"

text \<open>An adapter with a fixed outcome, whatever the world.\<close>

definition returns :: "fetcher \<Rightarrow> (exc + notice list) \<Rightarrow> bool" where
  "returns f out \<longleftrightarrow> (\<forall>w. fst (f w) = out)"

text \<open>An adapter that neither reads nor replaces the clock.\<close>

definition keeps_clock :: "fetcher \<Rightarrow> bool" where
  "keeps_clock f \<longleftrightarrow>
     (\<forall>w. clock (snd (f w)) = clock w \<and> clock_reads (snd (f w)) = clock_reads w)"

text \<open>The adapter that returns the empty list wherever \<open>f\<close> raises.\<close>

definition absorb :: "fetcher \<Rightarrow> fetcher" where
  "absorb f w = (case f w of (Inl e, w1) \<Rightarrow> (Inr [], w1) | (Inr items, w1) \<Rightarrow> (Inr items, w1))"

text \<open>The state of the run when both loops are done, and the cutoff computed next.\<close>

definition after_loops ::
  "string set \<Rightarrow> lib \<Rightarrow> fetcher list \<Rightarrow> world \<Rightarrow> cycle_vars \<times> world" where
  "after_loops KW L sources w =
     run_fetchers KW L (set (map fst (load_state w))) sources (load_state w, [], 0) w"

definition cycle_cutoff :: "string set \<Rightarrow> lib \<Rightarrow> fetcher list \<Rightarrow> world \<Rightarrow> real" where
  "cycle_cutoff KW L sources w = fst (time_time (snd (after_loops KW L sources w))) - 90 * 24 * 3600"

text \<open>
  The invariant of both loops: \<open>state\<close> is the loaded state followed by one entry per
  fingerprint accepted so far; when the adapters leave the clock alone (\<open>kc\<close>), each
  such entry holds a reading of the clock made during this run.
\<close>

definition state_inv ::
  "bool \<Rightarrow> string set \<Rightarrow> lib \<Rightarrow> string set \<Rightarrow> (string \<times> real) list \<Rightarrow> world \<Rightarrow> cycle_vars \<times> world
     \<Rightarrow> bool" where
  "state_inv kc KW L seen st0 w0 = (\<lambda>((st, new, c), w).
     (\<exists>extra. st = st0 @ extra \<and> fst ` set extra = notice_uid L ` set new
        \<and> distinct (map fst extra)
        \<and> (kc \<longrightarrow> (\<forall>kv\<in>set extra. \<exists>i. clock_reads w0 \<le> i \<and> i < clock_reads w
                                        \<and> snd kv = clock w0 i)))
     \<and> (\<forall>n\<in>set new. accepted KW L seen n)
     \<and> (kc \<longrightarrow> clock w = clock w0 \<and> clock_reads w0 \<le> clock_reads w))"

text \<open>
  The outcome of the \<open>i\<close>-th GET of a call of \<open>http_get\<close> started in world \<open>w\<close> (a response
  whose status \<open>raise_for_status\<close> rejects counts as a failure), and the sleep that follows
  the failure of that GET.
\<close>

definition attempt :: "lib \<Rightarrow> world \<Rightarrow> string \<Rightarrow> nat \<Rightarrow> exc + response" where
  "attempt L w url i =
     (case net w (requests w + i) url of
        Inl e \<Rightarrow> Inl e
      | Inr r \<Rightarrow> (case raise_for_status L r of Some e \<Rightarrow> Inl e | None \<Rightarrow> Inr r))"

definition backoff :: "world \<Rightarrow> nat \<Rightarrow> real" where
  "backoff w i = real RETRY_BASE_SLEEP * real (Suc i) + rand w (rand_draws w + i)"

text \<open>Two distinct texts with one SHA-256 digest.\<close>

definition collision :: "lib \<Rightarrow> string \<Rightarrow> string \<Rightarrow> bool" where
  "collision L x y \<longleftrightarrow> x \<noteq> y \<and> sha256 L x = sha256 L y"

text \<open>
  The UTC calendar day of a timestamp, today's target at the configured UTC hour, the
  recorded heartbeat, the condition under which a heartbeat is due at the next reading of
  the clock, whether \<open>send_email\<close> has what it needs, the heartbeat message, and \<open>n\<close>
  successive calls of \<open>maybe_send_heartbeat\<close> (each a run of its own: an exception ends a
  run, not the sequence).
\<close>

definition utc_day :: "real \<Rightarrow> int" where
  "utc_day t = \<lfloor>t\<rfloor> div 86400"

definition utc_target :: "config \<Rightarrow> real \<Rightarrow> real" where
  "utc_target cfg now = real_of_int (86400 * utc_day now + 3600 * HEARTBEAT_HOUR_UTC cfg)"

definition last_heartbeat :: "world \<Rightarrow> real" where
  "last_heartbeat w = dict_get (load_state w) ''_last_heartbeat'' 0"

definition heartbeat_due :: "config \<Rightarrow> world \<Rightarrow> bool" where
  "heartbeat_due cfg w \<longleftrightarrow>
     utc_target cfg (clock w (clock_reads w)) \<le> clock w (clock_reads w)
     \<and> last_heartbeat w < utc_target cfg (clock w (clock_reads w))"

definition can_send :: "config \<Rightarrow> bool" where
  "can_send cfg \<longleftrightarrow> truthy (SMTP_USER cfg) \<and> truthy (SMTP_PASS cfg) \<and> ALERT_TO cfg \<noteq> []"

definition heartbeat_mail :: "string \<times> string" where
  "heartbeat_mail = (''[ET Tenders] Daily heartbeat'', ''<p>Watcher is running.</p>'')"

fun heartbeat_calls :: "config \<Rightarrow> nat \<Rightarrow> world \<Rightarrow> world" where
  "heartbeat_calls cfg 0 w = w"
| "heartbeat_calls cfg (Suc n) w = heartbeat_calls cfg n (snd (maybe_send_heartbeat cfg w))"

section \<open>Concrete inputs\<close>

text \<open>Inputs at which the theorems below are instantiated.\<close>

definition demo_lib :: lib where
  "demo_lib =
     \<lparr>sha256 = (\<lambda>s. of_nat (length s)),
      raise_for_status = (\<lambda>r. if 400 \<le> status_code r \<and> status_code r < 600
                                then Some (HTTPError (status_code r)) else None),
      select_anchors = (\<lambda>html. Inr []),
      urljoin = (\<lambda>base href. Inr (base @ href))\<rparr>"

definition quiet_world :: "real \<Rightarrow> world" where
  "quiet_world t =
     \<lparr>state_file = Absent, clock = (\<lambda>i. t), clock_reads = 0, rand = (\<lambda>i. 0), rand_draws = 0,
      net = (\<lambda>i url. Inl (RequestError ''unreachable'')), requests = 0,
      smtp = (\<lambda>i. None), smtp_sessions = 0, slept = [], outbox = []\<rparr>"

definition stored_world :: "(string \<times> real) list \<Rightarrow> real \<Rightarrow> world" where
  "stored_world st t = (quiet_world t)\<lparr>state_file := Stored st\<rparr>"

definition erp_notice :: notice where
  "erp_notice = mk_notice ''ERP System Tender'' ''http://x/1'' ''test''"

definition chairs_notice :: notice where
  "chairs_notice = mk_notice ''Office Chairs'' ''http://x/2'' ''test''"

definition flaky_world :: world where
  "flaky_world =
     \<lparr>state_file = Absent, clock = (\<lambda>i. 0), clock_reads = 0, rand = (\<lambda>i. 1 / 2), rand_draws = 0,
      net = (\<lambda>i url. if i = 0 then Inr \<lparr>status_code = 503, resp_text = []\<rparr>
                       else Inr \<lparr>status_code = 200, resp_text = ''<html></html>''\<rparr>),
      requests = 0, smtp = (\<lambda>i. None), smtp_sessions = 0, slept = [], outbox = []\<rparr>"

definition demo_cfg :: config where
  "demo_cfg =
     \<lparr>keywords_file = Some [''ERP'', ''  Web '', [], ''   ''], ALERT_TO = ''ops@example.org'',
      SMTP_USER = Some ''watcher'', SMTP_PASS = Some ''secret'', HEARTBEAT_HOUR_UTC = 6,
      HEARTBEAT_ENABLE = True, utc_offset = 0\<rparr>"

definition page_lib :: lib where
  "page_lib =
     demo_lib\<lparr>select_anchors := (\<lambda>html.
        Inr [(''ERP System Tender'', Some ''tender/1''), (''Office Chairs'', Some ''tender/2''),
             (''Web portal'', None), ([], Some ''tender/3'')])\<rparr>"

definition online_world :: world where
  "online_world =
     (quiet_world 0)\<lparr>net := (\<lambda>i url. Inr \<lparr>status_code = 200, resp_text = ''<html></html>''\<rparr>)\<rparr>"


definition noon_world :: world where
  "noon_world = quiet_world 110000"

section \<open>Strings and relevance\<close>



lemma lower_append: "lower (a @ b) = lower a @ lower b"
  by (simp add: lower_def)

lemma finite_sublists: "finite {k. sublist k t}"
proof -
  have "{k. sublist k t} \<subseteq> {k. set k \<subseteq> set t \<and> length k \<le> length t}"
    by (auto dest: sublist_length_le set_mono_sublist)
  moreover have "finite {k. set k \<subseteq> set t \<and> length k \<le> length t}"
    by (rule finite_lists_length_le) simp
  ultimately show ?thesis by (rule finite_subset)
qed

lemma finite_matches: "finite {k \<in> KW. sublist k t}"
  by (rule finite_subset [OF _ finite_sublists [of t]]) auto

lemma relevant_score_card: "relevant_score KW txt = card {k \<in> KW. sublist k (lower txt)}"
  by (simp add: relevant_score_def Let_def)

lemma relevant_score_pos: "relevant_score KW txt \<ge> 1 \<longleftrightarrow> (\<exists>k\<in>KW. sublist k (lower txt))"
proof -
  have "card {k \<in> KW. sublist k (lower txt)} = 0 \<longleftrightarrow> {k \<in> KW. sublist k (lower txt)} = {}"
    using finite_matches [of KW "lower txt"] by simp
  then show ?thesis unfolding relevant_score_card by auto
qed



lemma relevant_score_blob:
  assumes "relevant_score KW (dict_get n ''title'' []) \<ge> 1"
  shows "relevant_score KW (text_blob n) \<ge> 1"
proof -
  from assms obtain k where k: "k \<in> KW" "sublist k (lower (dict_get n ''title'' []))"
    unfolding relevant_score_pos by blast
  have "sublist k (lower (text_blob n))"
    using k(2) unfolding text_blob_def lower_append by (rule sublist_order.order.trans) simp
  with k(1) show ?thesis unfolding relevant_score_pos by blast
qed

section \<open>The run loop\<close>

lemma scan_items_step:
  "scan_items KW L seen (n # items) vars w =
     (case scan_items KW L seen [n] vars w of (vars1, w1) \<Rightarrow> scan_items KW L seen items vars1 w1)"
  by (cases vars) (simp add: time_time_def split: prod.splits)

lemma scan_items_single:
  "scan_items KW L seen [n] (st, new, c) w =
     (if accepted KW L seen n
      then ((AList.update (notice_uid L n) (clock w (clock_reads w)) st, new @ [n], Suc c),
            w\<lparr>clock_reads := Suc (clock_reads w)\<rparr>)
      else ((st, new, Suc c), w))"
  by (auto simp: accepted_def time_time_def)

declare scan_items.simps(2) [simp del]

lemma scan_items_rule:
  assumes "P (vars, w)"
    and "\<And>n vars w. n \<in> set items \<Longrightarrow> P (vars, w) \<Longrightarrow> P (scan_items KW L seen [n] vars w)"
  shows "P (scan_items KW L seen items vars w)"
  using assms
proof (induction items arbitrary: vars w)
  case Nil
  then show ?case by simp
next
  case (Cons n items)
  obtain vars1 w1 where one: "scan_items KW L seen [n] vars w = (vars1, w1)"
    by (cases "scan_items KW L seen [n] vars w")
  have "P (vars1, w1)"
    using Cons.prems(2) [of n vars w] Cons.prems(1) one by simp
  then have "P (scan_items KW L seen items vars1 w1)"
    using Cons.prems(2) by (intro Cons.IH) simp_all
  then show ?case
    by (subst scan_items_step) (simp add: one)
qed

lemma run_fetchers_rule:
  assumes "P (vars, w)"
    and "\<And>f vars w. f \<in> set sources \<Longrightarrow> P (vars, w) \<Longrightarrow> P (vars, snd (f w))"
    and "\<And>f w0 items n vars w. f \<in> set sources \<Longrightarrow> fst (f w0) = Inr items \<Longrightarrow> n \<in> set items \<Longrightarrow>
           P (vars, w) \<Longrightarrow> P (scan_items KW L seen [n] vars w)"
  shows "P (run_fetchers KW L seen sources vars w)"
  using assms
proof (induction sources arbitrary: vars w)
  case Nil
  then show ?case by simp
next
  case (Cons f rest)
  obtain res w1 where fw: "f w = (res, w1)" by (cases "f w")
  define items where "items = (case res of Inl e \<Rightarrow> [] | Inr xs \<Rightarrow> xs)"
  obtain vars2 w2 where sc: "scan_items KW L seen items vars w1 = (vars2, w2)"
    by (cases "scan_items KW L seen items vars w1")
  have P1: "P (vars, w1)"
    using Cons.prems(2) [of f vars w] Cons.prems(1) fw by simp
  have "P (scan_items KW L seen items vars w1)"
  proof (rule scan_items_rule [where P = P, OF P1])
    fix n vars' w'
    assume n: "n \<in> set items" and P': "P (vars', w')"
    from n have "res = Inr items"
      by (cases res) (auto simp: items_def)
    then have "fst (f w) = Inr items" using fw by simp
    then show "P (scan_items KW L seen [n] vars' w')"
      using Cons.prems(3) [of f w items n vars' w'] n P' by simp
  qed
  then have step: "P (vars2, w2)" by (simp add: sc)
  have "P (run_fetchers KW L seen rest vars2 w2)"
  proof (rule Cons.IH [OF step])
    fix g vars' w'
    assume "g \<in> set rest" and "P (vars', w')"
    then show "P (vars', snd (g w'))"
      using Cons.prems(2) [of g vars' w'] by simp
  next
    fix g w0 items' n vars' w'
    assume "g \<in> set rest" and "fst (g w0) = Inr items'" and "n \<in> set items'" and "P (vars', w')"
    then show "P (scan_items KW L seen [n] vars' w')"
      using Cons.prems(3) [of g w0 items' n vars' w'] by simp
  qed
  then show ?case
    using fw sc by (simp add: items_def)
qed

lemma update_append_fresh:
  "k \<notin> fst ` set xs \<Longrightarrow> AList.update k v (xs @ ys) = xs @ AList.update k v ys"
  by (induction xs) auto

lemma set_update_subset: "set (AList.update k v al) \<subseteq> insert (k, v) (set al)"
  by (induction al) auto

lemma scan_items_results:
  "snd (fst (scan_items KW L seen items (st, new, c) w))
     = (new @ filter (accepted KW L seen) items, c + length items)"
proof (induction items arbitrary: st new c w)
  case Nil
  then show ?case by simp
next
  case (Cons n items)
  show ?case
    by (subst scan_items_step) (simp add: scan_items_single Cons.IH)
qed

lemma run_fetchers_results:
  "list_all2 returns sources outs \<Longrightarrow>
   snd (fst (run_fetchers KW L seen sources (st, new, c) w))
     = (new @ filter (accepted KW L seen) (delivered outs), c + length (delivered outs))"
proof (induction sources outs arbitrary: st new c w rule: list_all2_induct)
  case Nil
  then show ?case by (simp add: delivered_def)
next
  case (Cons f sources out outs)
  obtain w1 where fw: "f w = (out, w1)"
    using Cons.hyps(1) by (cases "f w") (auto simp: returns_def dest: spec [of _ w])
  define items where "items = (case out of Inl e \<Rightarrow> [] | Inr xs \<Rightarrow> xs)"
  obtain st2 new2 c2 w2 where sc: "scan_items KW L seen items (st, new, c) w1 = ((st2, new2, c2), w2)"
    by (metis prod.exhaust)
  have r2: "(new2, c2) = (new @ filter (accepted KW L seen) items, c + length items)"
    using scan_items_results [of KW L seen items st new c w1] sc by simp
  have d: "delivered (out # outs) = items @ delivered outs"
    by (simp add: delivered_def items_def)
  show ?case
    using fw sc r2 Cons.IH [of st2 new2 c2 w2] by (simp add: items_def [symmetric] d)
qed

lemma state_inv_step:
  assumes inv: "state_inv kc KW L seen st0 w0 (vars, w)" and sub: "fst ` set st0 \<subseteq> seen"
  shows "state_inv kc KW L seen st0 w0 (scan_items KW L seen [n] vars w)"
proof -
  obtain st new c where vars: "vars = (st, new, c)" by (cases vars)
  from inv obtain extra where ex: "st = st0 @ extra" "fst ` set extra = notice_uid L ` set new"
      "distinct (map fst extra)"
      "kc \<longrightarrow> (\<forall>kv\<in>set extra. \<exists>i. clock_reads w0 \<le> i \<and> i < clock_reads w \<and> snd kv = clock w0 i)"
    and acc: "\<forall>n\<in>set new. accepted KW L seen n"
    and clk: "kc \<longrightarrow> clock w = clock w0 \<and> clock_reads w0 \<le> clock_reads w"
    unfolding state_inv_def vars by auto
  show ?thesis
  proof (cases "accepted KW L seen n")
    case False
    then show ?thesis using inv by (simp add: vars scan_items_single state_inv_def)
  next
    case True
    then have fresh: "notice_uid L n \<notin> fst ` set st0"
      using sub by (auto simp: accepted_def)
    let ?v = "clock w (clock_reads w)"
    let ?extra = "AList.update (notice_uid L n) ?v extra"
    have 1: "AList.update (notice_uid L n) ?v st = st0 @ ?extra"
      using fresh by (simp add: ex(1) update_append_fresh)
    have 2: "fst ` set ?extra = notice_uid L ` set (new @ [n])"
      by (simp add: dom_update ex(2))
    have 3: "kc \<longrightarrow> (\<forall>kv\<in>set ?extra. \<exists>i. clock_reads w0 \<le> i \<and> i < Suc (clock_reads w) \<and> snd kv = clock w0 i)"
    proof (intro impI ballI)
      fix kv assume kc and "kv \<in> set ?extra"
      then have "kv = (notice_uid L n, ?v) \<or> kv \<in> set extra"
        using set_update_subset [of "notice_uid L n" ?v extra] by auto
      then show "\<exists>i. clock_reads w0 \<le> i \<and> i < Suc (clock_reads w) \<and> snd kv = clock w0 i"
      proof
        assume "kv = (notice_uid L n, ?v)"
        then show ?thesis using clk \<open>kc\<close> by (intro exI [of _ "clock_reads w"]) simp
      next
        assume "kv \<in> set extra"
        then obtain i where "clock_reads w0 \<le> i" "i < clock_reads w" "snd kv = clock w0 i"
          using ex(4) \<open>kc\<close> by blast
        then show ?thesis by (intro exI [of _ i]) simp
      qed
    qed
    have 4: "distinct (map fst ?extra)"
      using ex(3) by (rule distinct_update)
    have 5: "kc \<longrightarrow> clock_reads w0 \<le> Suc (clock_reads w)"
      using clk by auto
    show ?thesis
      unfolding vars state_inv_def
      using True 1 2 3 4 5 acc clk by (simp add: scan_items_single)
  qed
qed

lemma run_fetchers_state:
  assumes sub: "fst ` set st0 \<subseteq> seen"
  shows "state_inv (\<forall>f\<in>set sources. keeps_clock f) KW L seen st0 w
           (run_fetchers KW L seen sources (st0, [], 0) w)"
proof (rule run_fetchers_rule [where P = "state_inv (\<forall>f\<in>set sources. keeps_clock f) KW L seen st0 w"])
  show "state_inv (\<forall>f\<in>set sources. keeps_clock f) KW L seen st0 w ((st0, [], 0), w)"
    by (simp add: state_inv_def)
next
  fix f vars w'
  assume "f \<in> set sources" and "state_inv (\<forall>f\<in>set sources. keeps_clock f) KW L seen st0 w (vars, w')"
  then show "state_inv (\<forall>f\<in>set sources. keeps_clock f) KW L seen st0 w (vars, snd (f w'))"
    by (auto simp: state_inv_def keeps_clock_def)
next
  fix f w0 items n vars w'
  assume "state_inv (\<forall>f\<in>set sources. keeps_clock f) KW L seen st0 w (vars, w')"
  then show "state_inv (\<forall>f\<in>set sources. keeps_clock f) KW L seen st0 w (scan_items KW L seen [n] vars w')"
    using sub by (rule state_inv_step)
qed

lemma trimmed_eq:
  "(if length (filter P xs) \<noteq> length xs then filter P xs else xs) = filter P xs"
proof (cases "length (filter P xs) = length xs")
  case True
  then have "\<forall>x\<in>set xs. P x"
    using length_filter_less [of _ xs P] by fastforce
  then have "filter P xs = xs"
    by (rule filter_True)
  with True show ?thesis by simp
next
  case False
  then show ?thesis by simp
qed

lemma run_cycle_eq:
  "run_cycle KW L sources w =
     (snd (fst (after_loops KW L sources w)),
      save_state (filter (\<lambda>kv. snd kv \<ge> cycle_cutoff KW L sources w) (fst (fst (after_loops KW L sources w))))
        (snd (time_time (snd (after_loops KW L sources w)))))"
  unfolding run_cycle_def Let_def trimmed_eq
  by (simp add: cycle_cutoff_def after_loops_def case_prod_unfold)

lemma run_fetchers_absorb:
  "run_fetchers KW L seen (map absorb sources) vars w = run_fetchers KW L seen sources vars w"
proof (induction sources arbitrary: vars w)
  case Nil
  then show ?case by simp
next
  case (Cons f rest)
  obtain res w1 where fw: "f w = (res, w1)" by (cases "f w")
  have ab: "absorb f w = (case res of Inl e \<Rightarrow> (Inr [], w1) | Inr items \<Rightarrow> (Inr items, w1))"
    by (simp add: absorb_def fw split: sum.splits)
  show ?case
    by (cases res) (simp_all add: fw ab Cons.IH split: prod.splits)
qed

lemma run_cycle_absorb: "run_cycle KW L (map absorb sources) w = run_cycle KW L sources w"
  by (simp add: run_cycle_def run_fetchers_absorb)

lemma run_cycle_results:
  assumes "list_all2 returns sources outs"
  shows "fst (run_cycle KW L sources w)
           = (filter (accepted KW L (set (map fst (load_state w)))) (delivered outs),
              length (delivered outs))"
  using run_fetchers_results [OF assms, of KW L "set (map fst (load_state w))" "load_state w" "[]" 0 w]
  by (simp add: run_cycle_eq after_loops_def)

lemma erp_relevant: "relevant_score {''erp'', ''web''} (text_blob erp_notice) = 1"
  by code_simp

lemma chairs_irrelevant: "relevant_score {''erp'', ''web''} (text_blob chairs_notice) = 0"
  by code_simp

lemma after_loops_inv:
  "state_inv (\<forall>f\<in>set sources. keeps_clock f) KW L (set (map fst (load_state w))) (load_state w) w
     (after_loops KW L sources w)"
  unfolding after_loops_def by (rule run_fetchers_state) simp

lemma after_loops_state:
  obtains extra where
    "fst (fst (after_loops KW L sources w)) = load_state w @ extra"
    "fst ` set extra = notice_uid L ` set (fst (fst (run_cycle KW L sources w)))"
    "distinct (map fst extra)"
    "fst ` set extra \<inter> fst ` set (load_state w) = {}"
    "(\<forall>f\<in>set sources. keeps_clock f) \<Longrightarrow>
       \<forall>kv\<in>set extra. \<exists>i. clock_reads w \<le> i \<and> i < clock_reads (snd (after_loops KW L sources w))
          \<and> snd kv = clock w i"
proof -
  obtain st new c w1 where al: "after_loops KW L sources w = ((st, new, c), w1)"
    by (metis prod.exhaust)
  have new: "fst (fst (run_cycle KW L sources w)) = new"
    by (simp add: run_cycle_eq al)
  from after_loops_inv [of sources KW L w] obtain extra where
    ex: "st = load_state w @ extra" "fst ` set extra = notice_uid L ` set new"
      "distinct (map fst extra)"
      "(\<forall>f\<in>set sources. keeps_clock f) \<longrightarrow>
        (\<forall>kv\<in>set extra. \<exists>i. clock_reads w \<le> i \<and> i < clock_reads w1 \<and> snd kv = clock w i)"
    and acc: "\<forall>n\<in>set new. accepted KW L (set (map fst (load_state w))) n"
    unfolding state_inv_def al by auto
  have "fst ` set extra \<inter> fst ` set (load_state w) = {}"
    using acc ex(2) by (auto simp: accepted_def)
  with ex show ?thesis
    using that [of extra] by (simp add: al new)
qed

lemma saved_state:
  "state_file (snd (run_cycle KW L sources w))
     = Stored (filter (\<lambda>kv. snd kv \<ge> cycle_cutoff KW L sources w)
                (fst (fst (after_loops KW L sources w))))"
  by (simp add: run_cycle_eq save_state_def)

lemma load_saved_state:
  "load_state (snd (run_cycle KW L sources w))
     = filter (\<lambda>kv. snd kv \<ge> cycle_cutoff KW L sources w) (fst (fst (after_loops KW L sources w)))"
  by (simp add: load_state_def saved_state)

lemma after_loops_clock:
  assumes "\<forall>f\<in>set sources. keeps_clock f"
  shows "clock (snd (after_loops KW L sources w)) = clock w"
    and "clock_reads w \<le> clock_reads (snd (after_loops KW L sources w))"
  using after_loops_inv [of sources KW L w] assms
  by (auto simp: state_inv_def case_prod_unfold)


lemma cycle_cutoff_frozen:
  assumes "\<forall>f\<in>set sources. keeps_clock f" and "\<forall>i. clock w i = t"
  shows "cycle_cutoff KW L sources w = t - 90 * 24 * 3600"
  using after_loops_clock(1) [OF assms(1), of KW L w] assms(2)
  by (simp add: cycle_cutoff_def time_time_def)


lemma length_hex_fixed: "length (hex_fixed k v) = k"
  by (induction k arbitrary: v) simp_all

lemma length_uid_hash: "length (uid_hash L title buyer deadline url) = 64"
  by (simp add: uid_hash_def hexdigest_def length_hex_fixed)


lemma second_run_empty:
  assumes ret: "list_all2 returns sources outs"
    and kc: "\<forall>f\<in>set sources. keeps_clock f"
    and frozen: "\<forall>i. clock w i = t"
    and recent: "\<forall>n\<in>set (delivered outs). \<forall>v. (notice_uid L n, v) \<in> set (load_state w)
                   \<longrightarrow> t - 90 * 24 * 3600 \<le> v"
  shows "fst (run_cycle KW L sources (snd (run_cycle KW L sources w))) = ([], length (delivered outs))"
proof -
  let ?c = "cycle_cutoff KW L sources w"
  let ?st0 = "load_state w"
  let ?w' = "snd (run_cycle KW L sources w)"
  let ?seen = "set (map fst ?st0)"
  let ?seen' = "set (map fst (load_state ?w'))"
  obtain extra where ex: "fst (fst (after_loops KW L sources w)) = ?st0 @ extra"
    "fst ` set extra = notice_uid L ` set (fst (fst (run_cycle KW L sources w)))"
    "\<forall>kv\<in>set extra. \<exists>i. clock_reads w \<le> i \<and> i < clock_reads (snd (after_loops KW L sources w))
        \<and> snd kv = clock w i"
    using after_loops_state [of KW L sources w] kc by metis
  have c: "?c = t - 90 * 24 * 3600"
    using kc frozen by (rule cycle_cutoff_frozen)
  have st': "load_state ?w' = filter (\<lambda>kv. ?c \<le> snd kv) (?st0 @ extra)"
    by (simp add: load_saved_state ex(1))
  have new1: "fst (fst (run_cycle KW L sources w)) = filter (accepted KW L ?seen) (delivered outs)"
    using run_cycle_results [OF ret, of KW L w] by simp
  have rejected: "\<not> accepted KW L ?seen' n" if n: "n \<in> set (delivered outs)" for n
  proof (cases "accepted KW L ?seen n")
    case True
    then have "n \<in> set (fst (fst (run_cycle KW L sources w)))"
      using n by (simp add: new1)
    then have "notice_uid L n \<in> fst ` set extra" using ex(2) by blast
    then obtain v where v: "(notice_uid L n, v) \<in> set extra" by auto
    then have "v = t" using ex(3) frozen by fastforce
    then have "(notice_uid L n, v) \<in> set (load_state ?w')"
      using v by (simp add: st' c)
    then have "notice_uid L n \<in> ?seen'" by force
    then show ?thesis by (simp add: accepted_def)
  next
    case False
    show ?thesis
    proof (cases "notice_uid L n \<in> ?seen")
      case True
      then obtain v where v: "(notice_uid L n, v) \<in> set ?st0" by auto
      then have "?c \<le> v" using recent n by (simp add: c)
      then have "(notice_uid L n, v) \<in> set (load_state ?w')"
        using v by (simp add: st')
      then have "notice_uid L n \<in> ?seen'" by force
      then show ?thesis by (simp add: accepted_def)
    next
      case notseen: False
      with False show ?thesis by (simp add: accepted_def)
    qed
  qed
  have "filter (accepted KW L ?seen') (delivered outs) = []"
    using rejected by (simp add: filter_empty_conv)
  then show ?thesis
    using run_cycle_results [OF ret, of KW L ?w'] by simp
qed

lemma text_blob_mk_notice: "text_blob (mk_notice title url src) = title @ '' '' @ url"
  by (simp add: text_blob_def mk_notice_def dict_get_def)

lemma erp_score: "relevant_score {''erp'', ''web''} ''ERP System Tender http://x/1'' = 1"
  by code_simp

lemma chairs_score: "relevant_score {''erp'', ''web''} ''Office Chairs http://x/2'' = 0"
  by code_simp

section \<open>The HTTP fetcher\<close>

lemma http_get_three: "http_get L url w = http_get_loop L url [1, 2, 3] None w"
proof -
  have "[1..<RETRY_MAX + 1] = [1, 2, 3]"
    by (simp add: RETRY_MAX_def upt_rec)
  then show ?thesis by (simp add: http_get_def)
qed

lemma http_get_cases:
  "http_get L url w =
     (case attempt L w url 0 of
        Inr r \<Rightarrow> (Inr r, w\<lparr>requests := requests w + 1\<rparr>)
      | Inl e0 \<Rightarrow>
          (case attempt L w url 1 of
             Inr r \<Rightarrow> (Inr r, w\<lparr>requests := requests w + 2, rand_draws := rand_draws w + 1,
                               slept := slept w @ [backoff w 0]\<rparr>)
           | Inl e1 \<Rightarrow>
               (case attempt L w url 2 of
                  Inr r \<Rightarrow> (Inr r, w\<lparr>requests := requests w + 3, rand_draws := rand_draws w + 2,
                                    slept := slept w @ [backoff w 0, backoff w 1]\<rparr>)
                | Inl e2 \<Rightarrow> (Inl e2, w\<lparr>requests := requests w + 3, rand_draws := rand_draws w + 3,
                                    slept := slept w @ [backoff w 0, backoff w 1, backoff w 2]\<rparr>))))"
  unfolding http_get_three
  by (simp add: attempt_def backoff_def requests_get_def random_random_def time_sleep_def
      numeral_2_eq_2 numeral_3_eq_3 split: sum.splits option.splits)

section \<open>The source adapters\<close>




lemma dict_get_mk_notice:
  "dict_get (mk_notice title url src) ''title'' d = title"
  "dict_get (mk_notice title url src) ''url'' d = url"
  by (simp_all add: dict_get_def mk_notice_def)

lemma http_get_frame:
  "clock (snd (http_get L url w)) = clock w"
  "clock_reads (snd (http_get L url w)) = clock_reads w"
  "state_file (snd (http_get L url w)) = state_file w"
  by (simp_all add: http_get_cases split: sum.splits)

lemma scan_anchors_titles:
  assumes "scan_anchors KW L base src anchors acc = Inr ns"
    and "\<forall>n\<in>set acc. relevant_score KW (dict_get n ''title'' []) \<ge> 1"
  shows "\<forall>n\<in>set ns. relevant_score KW (dict_get n ''title'' []) \<ge> 1"
  using assms
proof (induction anchors arbitrary: acc)
  case Nil
  then show ?case by simp
next
  case (Cons a anchors)
  obtain title href where a: "a = (title, href)" by (cases a)
  show ?case
  proof (cases href)
    case None
    then show ?thesis using Cons a by simp
  next
    case (Some h)
    show ?thesis
    proof (cases "title = [] \<or> h = []")
      case True
      then show ?thesis using Cons a Some by auto
    next
      case False
      show ?thesis
      proof (cases "urljoin L base h")
        case (Inl e)
        then show ?thesis using Cons.prems a Some False by simp
      next
        case (Inr full)
        show ?thesis
        proof (cases "relevant_score KW title < 1")
          case True
          then show ?thesis using Cons a Some False Inr by auto
        next
          case rel: False
          have "scan_anchors KW L base src anchors (acc @ [mk_notice title full src]) = Inr ns"
            using Cons.prems(1) a Some False Inr rel by auto
          moreover have "\<forall>n\<in>set (acc @ [mk_notice title full src]).
                           relevant_score KW (dict_get n ''title'' []) \<ge> 1"
            using Cons.prems(2) rel by (auto simp: dict_get_mk_notice)
          ultimately show ?thesis by (rule Cons.IH)
        qed
      qed
    qed
  qed
qed

lemma fetch_anchor_page_titles:
  "\<exists>ns. fst (fetch_anchor_page KW L base src w) = Inr ns
        \<and> (\<forall>n\<in>set ns. relevant_score KW (dict_get n ''title'' []) \<ge> 1)"
proof -
  have "scan_anchors KW L base src anchors [] = Inr ns \<Longrightarrow>
          \<forall>n\<in>set ns. relevant_score KW (dict_get n ''title'' []) \<ge> 1" for anchors ns
    using scan_anchors_titles [of KW L base src anchors "[]" ns] by simp
  then show ?thesis
    by (auto simp: fetch_anchor_page_def split: prod.splits sum.splits)
qed

lemma fetch_anchor_page_keeps_clock: "keeps_clock (fetch_anchor_page KW L base src)"
proof -
  have "clock (snd (fetch_anchor_page KW L base src w)) = clock w
      \<and> clock_reads (snd (fetch_anchor_page KW L base src w)) = clock_reads w" for w
    using http_get_frame(1,2) [of L base w]
    by (auto simp: fetch_anchor_page_def split: prod.splits sum.splits)
  then show ?thesis by (simp add: keeps_clock_def)
qed

lemma SOURCES_titles:
  assumes "f \<in> set (SOURCES KW L)"
  shows "\<exists>ns. fst (f w) = Inr ns
            \<and> (\<forall>n\<in>set ns. relevant_score KW (dict_get n ''title'' []) \<ge> 1)"
  using assms fetch_anchor_page_titles [of KW L _ _ w]
  by (auto simp: SOURCES_def fetch_ethiopian_tender_com_def fetch_globaltenders_et_sw_def)

lemma new_notices_from_sources:
  assumes "\<And>f w0 items n. f \<in> set sources \<Longrightarrow> fst (f w0) = Inr items \<Longrightarrow> n \<in> set items \<Longrightarrow> Q n"
  shows "\<forall>n\<in>set (fst (fst (run_cycle KW L sources w))). Q n"
proof -
  let ?P = "\<lambda>p::cycle_vars \<times> world. \<forall>n\<in>set (fst (snd (fst p))). Q n"
  have "?P (run_fetchers KW L (set (map fst (load_state w))) sources (load_state w, [], 0) w)"
  proof (rule run_fetchers_rule [where P = ?P])
    show "?P ((load_state w, [], 0), w)" by simp
  next
    fix f vars w' assume "?P (vars, w')"
    then show "?P (vars, snd (f w'))" by simp
  next
    fix f w0 items n vars w'
    assume f: "f \<in> set sources" "fst (f w0) = Inr items" "n \<in> set items" and P: "?P (vars, w')"
    have "Q n" by (rule assms [OF f])
    with P show "?P (scan_items KW L (set (map fst (load_state w))) [n] vars w')"
      by (cases vars) (auto simp: scan_items_single)
  qed
  then show ?thesis
    by (simp add: run_cycle_eq after_loops_def)
qed

section \<open>Fingerprints\<close>

lemma hex_digit_inj:
  assumes "a < 16" "b < 16" "''0123456789abcdef'' ! a = ''0123456789abcdef'' ! b"
  shows "a = b"
proof -
  have d: "distinct ''0123456789abcdef''" by simp
  have "length ''0123456789abcdef'' = 16" by simp
  with assms d show ?thesis
    by (metis nth_eq_iff_index_eq)
qed

lemma hex_fixed_inj:
  assumes "hex_fixed k a = hex_fixed k b" "a < 16 ^ k" "b < 16 ^ k"
  shows "a = b"
  using assms
proof (induction k arbitrary: a b)
  case 0
  then show ?case by simp
next
  case (Suc k)
  have len: "length (hex_fixed k (a div 16)) = length (hex_fixed k (b div 16))"
    by (simp add: length_hex_fixed)
  from Suc.prems(1) len
  have eq: "hex_fixed k (a div 16) = hex_fixed k (b div 16)"
    and digit: "''0123456789abcdef'' ! (a mod 16) = ''0123456789abcdef'' ! (b mod 16)"
    by simp_all
  have "a div 16 < 16 ^ k" "b div 16 < 16 ^ k"
    using Suc.prems(2,3) by (simp_all add: less_mult_imp_div_less mult.commute)
  with eq have d: "a div 16 = b div 16" by (rule Suc.IH)
  have m: "a mod 16 = b mod 16"
    using digit by (intro hex_digit_inj) simp_all
  from d m show ?case
    by (metis div_mult_mod_eq)
qed

lemma hexdigest_inj: "hexdigest x = hexdigest y \<Longrightarrow> x = y"
proof -
  assume eq: "hexdigest x = hexdigest y"
  have "unat x < 2 ^ 256" "unat y < 2 ^ 256"
    using unsigned_less [of x] unsigned_less [of y] by simp_all
  moreover have "(2::nat) ^ 256 = 16 ^ 64" by simp
  ultimately have "unat x < 16 ^ 64" "unat y < 16 ^ 64" by simp_all
  with eq have "unat x = unat y"
    unfolding hexdigest_def by (rule hex_fixed_inj)
  then show "x = y" by (simp add: word_unat_eq_iff)
qed

lemma uid_text_inj:
  "uid_text t b d u = uid_text t' b d u \<longleftrightarrow> t = t'"
  "uid_text t b d u = uid_text t b' d u \<longleftrightarrow> b = b'"
  "uid_text t b d u = uid_text t b d' u \<longleftrightarrow> d = d'"
  "uid_text t b d u = uid_text t b d u' \<longleftrightarrow> u = u'"
  by (simp_all add: uid_text_def)

section \<open>The digest\<close>








section \<open>The heartbeat\<close>

lemma target_today:
  "mktime cfg ((gmtime now)\<lparr>tm_hour := HEARTBEAT_HOUR_UTC cfg, tm_min := 0, tm_sec := 0\<rparr>)
     = utc_target cfg now - real_of_int (utc_offset cfg)"
  by (simp add: mktime_def gmtime_def utc_target_def utc_day_def Let_def)

lemma maybe_send_heartbeat_cases:
  "maybe_send_heartbeat cfg w =
     (if \<not> HEARTBEAT_ENABLE cfg then (Inr False, w)
      else if \<not> (utc_target cfg (clock w (clock_reads w)) - real_of_int (utc_offset cfg)
                    \<le> clock w (clock_reads w)
                  \<and> last_heartbeat w
                    < utc_target cfg (clock w (clock_reads w)) - real_of_int (utc_offset cfg))
      then (Inr False, w\<lparr>clock_reads := Suc (clock_reads w)\<rparr>)
      else if \<not> can_send cfg
      then (Inr True, w\<lparr>state_file := Stored (AList.update ''_last_heartbeat''
                              (clock w (clock_reads w)) (load_state w)),
                        clock_reads := Suc (clock_reads w)\<rparr>)
      else (case smtp w (smtp_sessions w) of
              Some e \<Rightarrow> (Inl e, w\<lparr>clock_reads := Suc (clock_reads w),
                                   smtp_sessions := Suc (smtp_sessions w)\<rparr>)
            | None \<Rightarrow> (Inr True, w\<lparr>state_file := Stored (AList.update ''_last_heartbeat''
                                        (clock w (clock_reads w)) (load_state w)),
                                  clock_reads := Suc (clock_reads w),
                                  smtp_sessions := Suc (smtp_sessions w),
                                  outbox := outbox w @ [heartbeat_mail]\<rparr>)))"
  unfolding maybe_send_heartbeat_def Let_def time_time_def prod.case target_today
  by (simp add: send_email_def can_send_def last_heartbeat_def save_state_def heartbeat_mail_def
      split: option.splits)

text \<open>
  The invariant of repeated calls within one UTC day, \<open>T\<close> being the day's target: either
  no heartbeat has been sent yet, or one has and the recorded heartbeat is not before \<open>T\<close>.
\<close>

lemma heartbeat_step:
  assumes day: "\<forall>i\<ge>clock_reads w0. utc_day (clock w0 i) = d"
    and T: "T = real_of_int (86400 * d + 3600 * HEARTBEAT_HOUR_UTC cfg) - real_of_int (utc_offset cfg)"
    and inv: "clock w = clock w0 \<and> clock_reads w0 \<le> clock_reads w
        \<and> (outbox w = outbox w0
            \<or> (length (outbox w) = Suc (length (outbox w0)) \<and> T \<le> last_heartbeat w))"
  shows "clock (snd (maybe_send_heartbeat cfg w)) = clock w0
        \<and> clock_reads w0 \<le> clock_reads (snd (maybe_send_heartbeat cfg w))
        \<and> (outbox (snd (maybe_send_heartbeat cfg w)) = outbox w0
            \<or> (length (outbox (snd (maybe_send_heartbeat cfg w))) = Suc (length (outbox w0))
                \<and> T \<le> last_heartbeat (snd (maybe_send_heartbeat cfg w))))"
proof -
  have "utc_day (clock w (clock_reads w)) = d"
    using day inv by simp
  then have tgt: "utc_target cfg (clock w (clock_reads w)) - real_of_int (utc_offset cfg) = T"
    by (simp add: utc_target_def T)
  then have tgt0: "utc_target cfg (clock w0 (clock_reads w)) - real_of_int (utc_offset cfg) = T"
    using inv by simp
  have same: "last_heartbeat (w\<lparr>clock_reads := n\<rparr>) = last_heartbeat w"
    "last_heartbeat (w\<lparr>clock_reads := n, smtp_sessions := m\<rparr>) = last_heartbeat w" for n m
    by (simp_all add: last_heartbeat_def load_state_def)
  have rec: "last_heartbeat (w\<lparr>state_file := Stored (AList.update ''_last_heartbeat'' v st),
                clock_reads := n\<rparr>) = v"
    "last_heartbeat (w\<lparr>state_file := Stored (AList.update ''_last_heartbeat'' v st),
                clock_reads := n, smtp_sessions := m, outbox := ob\<rparr>) = v" for v st n m ob
    by (simp_all add: last_heartbeat_def load_state_def dict_get_def update_conv')
  show ?thesis
    using inv
    by (auto simp: maybe_send_heartbeat_cases tgt tgt0 same rec split: option.splits)
qed

lemma heartbeat_reads_clock:
  "HEARTBEAT_ENABLE cfg \<Longrightarrow>
     clock (snd (maybe_send_heartbeat cfg w)) = clock w
     \<and> clock_reads (snd (maybe_send_heartbeat cfg w)) = Suc (clock_reads w)"
  by (simp add: maybe_send_heartbeat_cases split: option.splits)

lemma heartbeat_calls_inv:
  assumes day: "\<forall>i\<ge>clock_reads w0. utc_day (clock w0 i) = d"
    and T: "T = real_of_int (86400 * d + 3600 * HEARTBEAT_HOUR_UTC cfg) - real_of_int (utc_offset cfg)"
    and inv: "clock w = clock w0 \<and> clock_reads w0 \<le> clock_reads w
        \<and> (outbox w = outbox w0
            \<or> (length (outbox w) = Suc (length (outbox w0)) \<and> T \<le> last_heartbeat w))"
  shows "outbox (heartbeat_calls cfg n w) = outbox w0
        \<or> length (outbox (heartbeat_calls cfg n w)) = Suc (length (outbox w0))"
  using inv
proof (induction n arbitrary: w)
  case 0
  then show ?case by auto
next
  case (Suc n)
  have "outbox (heartbeat_calls cfg n (snd (maybe_send_heartbeat cfg w))) = outbox w0
        \<or> length (outbox (heartbeat_calls cfg n (snd (maybe_send_heartbeat cfg w))))
            = Suc (length (outbox w0))"
    by (rule Suc.IH) (rule heartbeat_step [OF day T Suc.prems])
  then show ?case by simp
qed

lemma heartbeat_at_most_once:
  assumes "\<forall>i\<ge>clock_reads w. utc_day (clock w i) = d"
  shows "length (outbox (heartbeat_calls cfg n w)) \<le> Suc (length (outbox w))"
  using heartbeat_calls_inv [OF assms refl, of w cfg n] by auto

section \<open>Claims\<close>

text \<open>
  C1. Dedup idempotence, as amended. With adapters of fixed outcomes that leave the clock
  alone and a clock that does not advance, a second \<open>run_cycle\<close> returns no new notice and
  the same \<open>checked_count\<close>, provided no fingerprint of an emitted candidate is stored with a
  timestamp older than 90 days when the first run starts. Scenario: keywords \<open>erp\<close> and
  \<open>web\<close>, the candidates "ERP System Tender" at http://x/1 and "Office Chairs" at
  http://x/2, empty loaded state: the first run returns the ERP notice alone with
  \<open>checked_count = 2\<close>, the second run returns no notice with \<open>checked_count = 2\<close>.
  The proviso is needed: a fingerprint stored with an older timestamp is skipped by the
  first run, evicted at its end, and accepted as new by the second.
\<close>

theorem dedup_idempotence:
  "(list_all2 returns sources outs \<and> (\<forall>f\<in>set sources. keeps_clock f) \<and> (\<forall>i. clock w i = t)
      \<and> (\<forall>n\<in>set (delivered outs). \<forall>v. (notice_uid L n, v) \<in> set (load_state w)
            \<longrightarrow> t - 90 * 24 * 3600 \<le> v)
    \<longrightarrow> fst (run_cycle KW L sources (snd (run_cycle KW L sources w)))
          = ([], length (delivered outs)))
   \<and> (returns f (Inr [mk_notice ''ERP System Tender'' ''http://x/1'' src,
                      mk_notice ''Office Chairs'' ''http://x/2'' src])
        \<and> keeps_clock f \<and> (\<forall>i. clock w i = t) \<and> load_state w = []
    \<longrightarrow> fst (run_cycle {''erp'', ''web''} L [f] w)
          = ([mk_notice ''ERP System Tender'' ''http://x/1'' src], 2)
        \<and> fst (run_cycle {''erp'', ''web''} L [f] (snd (run_cycle {''erp'', ''web''} L [f] w)))
          = ([], 2))"
proof (intro conjI impI)
  assume "list_all2 returns sources outs \<and> (\<forall>f\<in>set sources. keeps_clock f) \<and> (\<forall>i. clock w i = t)
      \<and> (\<forall>n\<in>set (delivered outs). \<forall>v. (notice_uid L n, v) \<in> set (load_state w)
            \<longrightarrow> t - 90 * 24 * 3600 \<le> v)"
  then show "fst (run_cycle KW L sources (snd (run_cycle KW L sources w)))
          = ([], length (delivered outs))"
    using second_run_empty [of sources outs w t L KW] by blast
next
  let ?items = "[mk_notice ''ERP System Tender'' ''http://x/1'' src,
                 mk_notice ''Office Chairs'' ''http://x/2'' src]"
  assume a: "returns f (Inr ?items) \<and> keeps_clock f \<and> (\<forall>i. clock w i = t) \<and> load_state w = []"
  then have ret: "list_all2 returns [f] [Inr ?items]" by simp
  show "fst (run_cycle {''erp'', ''web''} L [f] w)
          = ([mk_notice ''ERP System Tender'' ''http://x/1'' src], 2)"
    using run_cycle_results [OF ret, of "{''erp'', ''web''}" L w] a
    by (simp add: delivered_def accepted_def text_blob_mk_notice erp_score chairs_score)
  have "fst (run_cycle {''erp'', ''web''} L [f] (snd (run_cycle {''erp'', ''web''} L [f] w)))
          = ([], length (delivered [Inr ?items]))"
    using ret a by (intro second_run_empty [where t = t]) simp_all
  then show "fst (run_cycle {''erp'', ''web''} L [f] (snd (run_cycle {''erp'', ''web''} L [f] w)))
          = ([], 2)"
    by (simp add: delivered_def)
qed


theorem dedup_idempotence_witness:
  "fst (run_cycle {''erp'', ''web''} demo_lib [\<lambda>w. (Inr [erp_notice, chairs_notice], w)]
     (snd (run_cycle {''erp'', ''web''} demo_lib [\<lambda>w. (Inr [erp_notice, chairs_notice], w)]
        (stored_world [(notice_uid demo_lib erp_notice, 5)] 10)))) = ([], 2)
   \<and> fst (run_cycle {''erp'', ''web''} demo_lib [\<lambda>w. (Inr [erp_notice, chairs_notice], w)]
        (quiet_world 0)) = ([erp_notice], 2)
   \<and> fst (run_cycle {''erp'', ''web''} demo_lib [\<lambda>w. (Inr [erp_notice, chairs_notice], w)]
     (snd (run_cycle {''erp'', ''web''} demo_lib [\<lambda>w. (Inr [erp_notice, chairs_notice], w)]
        (quiet_world 0)))) = ([], 2)"
proof -
  let ?f = "(\<lambda>w. (Inr [erp_notice, chairs_notice], w)) :: fetcher"
  let ?w = "stored_world [(notice_uid demo_lib erp_notice, 5)] 10"
  have h1: "list_all2 returns [?f] [Inr [erp_notice, chairs_notice]] \<and> (\<forall>f\<in>set [?f]. keeps_clock f)
      \<and> (\<forall>i. clock ?w i = 10)
      \<and> (\<forall>n\<in>set (delivered [Inr [erp_notice, chairs_notice]]).
            \<forall>v. (notice_uid demo_lib n, v) \<in> set (load_state ?w) \<longrightarrow> 10 - 90 * 24 * 3600 \<le> v)"
    by (simp add: returns_def keeps_clock_def stored_world_def quiet_world_def load_state_def)
  have h2: "returns ?f (Inr [mk_notice ''ERP System Tender'' ''http://x/1'' ''test'',
                      mk_notice ''Office Chairs'' ''http://x/2'' ''test''])
        \<and> keeps_clock ?f \<and> (\<forall>i. clock (quiet_world 0) i = 0) \<and> load_state (quiet_world 0) = []"
    by (simp add: returns_def keeps_clock_def quiet_world_def load_state_def erp_notice_def
        chairs_notice_def)
  have a: "fst (run_cycle {''erp'', ''web''} demo_lib [?f] (snd (run_cycle {''erp'', ''web''} demo_lib [?f] ?w)))
     = ([], length (delivered [Inr [erp_notice, chairs_notice]]))"
    using dedup_idempotence [THEN conjunct1, THEN mp, OF h1] .
  have b: "fst (run_cycle {''erp'', ''web''} demo_lib [?f] (quiet_world 0))
          = ([mk_notice ''ERP System Tender'' ''http://x/1'' ''test''], 2)
        \<and> fst (run_cycle {''erp'', ''web''} demo_lib [?f]
             (snd (run_cycle {''erp'', ''web''} demo_lib [?f] (quiet_world 0)))) = ([], 2)"
    using dedup_idempotence [THEN conjunct2, THEN mp, OF h2] .
  from a b show ?thesis
    by (simp add: delivered_def erp_notice_def)
qed

theorem dedup_idempotence_counterexample:
  "fst (run_cycle {''erp'', ''web''} demo_lib [\<lambda>w. (Inr [erp_notice, chairs_notice], w)]
     (stored_world [(notice_uid demo_lib erp_notice, 0)] 8000000)) = ([], 2)
   \<and> fst (run_cycle {''erp'', ''web''} demo_lib [\<lambda>w. (Inr [erp_notice, chairs_notice], w)]
     (snd (run_cycle {''erp'', ''web''} demo_lib [\<lambda>w. (Inr [erp_notice, chairs_notice], w)]
        (stored_world [(notice_uid demo_lib erp_notice, 0)] 8000000)))) = ([erp_notice], 2)"
proof -
  let ?f = "(\<lambda>w. (Inr [erp_notice, chairs_notice], w)) :: fetcher"
  let ?w = "stored_world [(notice_uid demo_lib erp_notice, 0)] 8000000"
  let ?KW = "{''erp'', ''web''}"
  have ret: "list_all2 returns [?f] [Inr [erp_notice, chairs_notice]]"
    by (simp add: returns_def)
  have st: "load_state ?w = [(notice_uid demo_lib erp_notice, 0)]"
    by (simp add: load_state_def stored_world_def quiet_world_def)
  have al: "after_loops ?KW demo_lib [?f] ?w = (([(notice_uid demo_lib erp_notice, 0)], [], 2), ?w)"
    unfolding after_loops_def st
    by (simp add: scan_items_step [of _ _ _ erp_notice] scan_items_single accepted_def chairs_irrelevant)
  have "cycle_cutoff ?KW demo_lib [?f] ?w = fst (time_time ?w) - 90 * 24 * 3600"
    by (simp only: cycle_cutoff_def al snd_conv)
  then have c: "cycle_cutoff ?KW demo_lib [?f] ?w = 224000"
    by (simp add: time_time_def stored_world_def quiet_world_def)
  have st': "load_state (snd (run_cycle ?KW demo_lib [?f] ?w)) = []"
    by (simp add: load_saved_state al c)
  have 1: "fst (run_cycle ?KW demo_lib [?f] ?w) = ([], 2)"
    using run_cycle_results [OF ret, of ?KW demo_lib ?w]
    by (simp add: st delivered_def accepted_def chairs_irrelevant)
  have 2: "fst (run_cycle ?KW demo_lib [?f] (snd (run_cycle ?KW demo_lib [?f] ?w))) = ([erp_notice], 2)"
    using run_cycle_results [OF ret, of ?KW demo_lib "snd (run_cycle ?KW demo_lib [?f] ?w)"]
    by (simp add: st' delivered_def accepted_def chairs_irrelevant erp_relevant)
  from 1 2 show ?thesis by simp
qed

text \<open>
  C2. HTTP retry policy, as amended. \<open>http_get\<close> makes at most 3 GET attempts and returns the
  first response that is not a failure. After every failed attempt, the third included, it
  sleeps \<open>RETRY_BASE_SLEEP * attempt + jitter\<close> seconds, which lies in
  \<open>[3 * attempt, 3 * attempt + 1)\<close> when \<open>random.random()\<close> draws from \<open>[0, 1)\<close>; after three
  failures it raises the last one. The sleep after the final failed attempt is what the
  claim as stated excludes: with the network down the sleeps are 3, 6 and 9 seconds.
\<close>

theorem http_retry_policy:
  "requests (snd (http_get L url w)) \<le> requests w + 3
   \<and> (\<forall>r. attempt L w url 0 = Inr r \<longrightarrow>
        fst (http_get L url w) = Inr r \<and> requests (snd (http_get L url w)) = requests w + 1
        \<and> slept (snd (http_get L url w)) = slept w)
   \<and> (\<forall>e0 r. attempt L w url 0 = Inl e0 \<and> attempt L w url 1 = Inr r \<longrightarrow>
        fst (http_get L url w) = Inr r \<and> requests (snd (http_get L url w)) = requests w + 2
        \<and> slept (snd (http_get L url w)) = slept w @ [backoff w 0])
   \<and> (\<forall>e0 e1 r. attempt L w url 0 = Inl e0 \<and> attempt L w url 1 = Inl e1
          \<and> attempt L w url 2 = Inr r \<longrightarrow>
        fst (http_get L url w) = Inr r \<and> requests (snd (http_get L url w)) = requests w + 3
        \<and> slept (snd (http_get L url w)) = slept w @ [backoff w 0, backoff w 1])
   \<and> (\<forall>e0 e1 e2. attempt L w url 0 = Inl e0 \<and> attempt L w url 1 = Inl e1
          \<and> attempt L w url 2 = Inl e2 \<longrightarrow>
        fst (http_get L url w) = Inl e2 \<and> requests (snd (http_get L url w)) = requests w + 3
        \<and> slept (snd (http_get L url w)) = slept w @ [backoff w 0, backoff w 1, backoff w 2])
   \<and> ((\<forall>i. 0 \<le> rand w i \<and> rand w i < 1) \<longrightarrow>
        (\<forall>i. real RETRY_BASE_SLEEP * real (Suc i) \<le> backoff w i
             \<and> backoff w i < real RETRY_BASE_SLEEP * real (Suc i) + 1))"
proof -
  have 1: "requests (snd (http_get L url w)) \<le> requests w + 3"
    by (simp add: http_get_cases split: sum.splits)
  have 2: "\<forall>r. attempt L w url 0 = Inr r \<longrightarrow>
        fst (http_get L url w) = Inr r \<and> requests (snd (http_get L url w)) = requests w + 1
        \<and> slept (snd (http_get L url w)) = slept w"
    by (simp add: http_get_cases)
  have 3: "\<forall>e0 r. attempt L w url 0 = Inl e0 \<and> attempt L w url 1 = Inr r \<longrightarrow>
        fst (http_get L url w) = Inr r \<and> requests (snd (http_get L url w)) = requests w + 2
        \<and> slept (snd (http_get L url w)) = slept w @ [backoff w 0]"
    by (simp add: http_get_cases)
  have 4: "\<forall>e0 e1 r. attempt L w url 0 = Inl e0 \<and> attempt L w url 1 = Inl e1
          \<and> attempt L w url 2 = Inr r \<longrightarrow>
        fst (http_get L url w) = Inr r \<and> requests (snd (http_get L url w)) = requests w + 3
        \<and> slept (snd (http_get L url w)) = slept w @ [backoff w 0, backoff w 1]"
    by (simp add: http_get_cases)
  have 5: "\<forall>e0 e1 e2. attempt L w url 0 = Inl e0 \<and> attempt L w url 1 = Inl e1
          \<and> attempt L w url 2 = Inl e2 \<longrightarrow>
        fst (http_get L url w) = Inl e2 \<and> requests (snd (http_get L url w)) = requests w + 3
        \<and> slept (snd (http_get L url w)) = slept w @ [backoff w 0, backoff w 1, backoff w 2]"
    by (simp add: http_get_cases)
  have 6: "(\<forall>i. 0 \<le> rand w i \<and> rand w i < 1) \<longrightarrow>
        (\<forall>i. real RETRY_BASE_SLEEP * real (Suc i) \<le> backoff w i
             \<and> backoff w i < real RETRY_BASE_SLEEP * real (Suc i) + 1)"
    by (simp add: backoff_def)
  from 1 2 3 4 5 6 show ?thesis by blast
qed

theorem http_retry_policy_witness:
  "fst (http_get demo_lib ''https://www.ethiopiantender.com/'' flaky_world)
     = Inr \<lparr>status_code = 200, resp_text = ''<html></html>''\<rparr>
   \<and> requests (snd (http_get demo_lib ''https://www.ethiopiantender.com/'' flaky_world)) = 2
   \<and> slept (snd (http_get demo_lib ''https://www.ethiopiantender.com/'' flaky_world)) = [7 / 2]
   \<and> 3 \<le> backoff flaky_world 0 \<and> backoff flaky_world 0 < 4"
proof -
  let ?u = "''https://www.ethiopiantender.com/''"
  have a: "attempt demo_lib flaky_world ?u 0 = Inl (HTTPError 503)
      \<and> attempt demo_lib flaky_world ?u 1 = Inr \<lparr>status_code = 200, resp_text = ''<html></html>''\<rparr>"
    by (simp add: attempt_def demo_lib_def flaky_world_def)
  have j: "\<forall>i. 0 \<le> rand flaky_world i \<and> rand flaky_world i < 1"
    by (simp add: flaky_world_def)
  have b: "backoff flaky_world 0 = 7 / 2"
    by (simp add: backoff_def flaky_world_def RETRY_BASE_SLEEP_def)
  note pol = http_retry_policy [of demo_lib ?u flaky_world]
  from pol a have "fst (http_get demo_lib ?u flaky_world)
        = Inr \<lparr>status_code = 200, resp_text = ''<html></html>''\<rparr>
      \<and> requests (snd (http_get demo_lib ?u flaky_world)) = requests flaky_world + 2
      \<and> slept (snd (http_get demo_lib ?u flaky_world)) = slept flaky_world @ [backoff flaky_world 0]"
    by blast
  moreover from pol j have "real RETRY_BASE_SLEEP * real (Suc 0) \<le> backoff flaky_world 0
      \<and> backoff flaky_world 0 < real RETRY_BASE_SLEEP * real (Suc 0) + 1"
    by blast
  moreover have "requests flaky_world = 0" and "slept flaky_world = []"
    by (simp_all add: flaky_world_def)
  ultimately show ?thesis
    by (simp add: b RETRY_BASE_SLEEP_def)
qed

theorem http_retry_policy_counterexample:
  "fst (http_get demo_lib ''https://www.ethiopiantender.com/'' (quiet_world 0))
     = Inl (RequestError ''unreachable'')
   \<and> requests (snd (http_get demo_lib ''https://www.ethiopiantender.com/'' (quiet_world 0))) = 3
   \<and> slept (snd (http_get demo_lib ''https://www.ethiopiantender.com/'' (quiet_world 0))) = [3, 6, 9]"
  by (simp add: http_get_cases attempt_def backoff_def quiet_world_def RETRY_BASE_SLEEP_def)

text \<open>
  C3. Heartbeat, as amended. With heartbeats enabled and the host's local time being UTC,
  \<open>maybe_send_heartbeat\<close> reads the clock once and: when the heartbeat is not due (the time
  read is before today's target at the configured UTC hour, or the recorded heartbeat is
  not before that target) it returns false and leaves the state file and the outbox as
  they are; when it is due it hands the heartbeat message to \<open>send_email\<close>, and then either
  the mail is delivered, the time read is recorded under \<open>_last_heartbeat\<close> and the result
  is true; or a credential or the recipient is missing, nothing is sent, and the time is
  recorded and the result is true all the same; or the SMTP session raises, and nothing is
  sent or recorded. With heartbeats disabled it returns false and does nothing. Whatever
  the configuration, over any number of calls whose clock readings fall in one UTC
  calendar day at most one heartbeat message is sent.
\<close>

theorem heartbeat_once_per_day:
  "(HEARTBEAT_ENABLE cfg \<and> utc_offset cfg = 0 \<longrightarrow>
      (\<not> heartbeat_due cfg w \<longrightarrow>
         fst (maybe_send_heartbeat cfg w) = Inr False
         \<and> state_file (snd (maybe_send_heartbeat cfg w)) = state_file w
         \<and> outbox (snd (maybe_send_heartbeat cfg w)) = outbox w)
    \<and> (heartbeat_due cfg w \<and> can_send cfg \<and> smtp w (smtp_sessions w) = None \<longrightarrow>
         fst (maybe_send_heartbeat cfg w) = Inr True
         \<and> outbox (snd (maybe_send_heartbeat cfg w)) = outbox w @ [heartbeat_mail]
         \<and> state_file (snd (maybe_send_heartbeat cfg w))
             = Stored (AList.update ''_last_heartbeat'' (clock w (clock_reads w)) (load_state w)))
    \<and> (heartbeat_due cfg w \<and> \<not> can_send cfg \<longrightarrow>
         fst (maybe_send_heartbeat cfg w) = Inr True
         \<and> outbox (snd (maybe_send_heartbeat cfg w)) = outbox w
         \<and> state_file (snd (maybe_send_heartbeat cfg w))
             = Stored (AList.update ''_last_heartbeat'' (clock w (clock_reads w)) (load_state w)))
    \<and> (\<forall>e. heartbeat_due cfg w \<and> can_send cfg \<and> smtp w (smtp_sessions w) = Some e \<longrightarrow>
         fst (maybe_send_heartbeat cfg w) = Inl e
         \<and> outbox (snd (maybe_send_heartbeat cfg w)) = outbox w
         \<and> state_file (snd (maybe_send_heartbeat cfg w)) = state_file w))
   \<and> (\<not> HEARTBEAT_ENABLE cfg \<longrightarrow> maybe_send_heartbeat cfg w = (Inr False, w))
   \<and> ((\<forall>i\<ge>clock_reads w. utc_day (clock w i) = d) \<longrightarrow>
        length (outbox (heartbeat_calls cfg n w)) \<le> Suc (length (outbox w)))"
proof -
  have 1: "HEARTBEAT_ENABLE cfg \<and> utc_offset cfg = 0 \<longrightarrow>
      (\<not> heartbeat_due cfg w \<longrightarrow>
         fst (maybe_send_heartbeat cfg w) = Inr False
         \<and> state_file (snd (maybe_send_heartbeat cfg w)) = state_file w
         \<and> outbox (snd (maybe_send_heartbeat cfg w)) = outbox w)
    \<and> (heartbeat_due cfg w \<and> can_send cfg \<and> smtp w (smtp_sessions w) = None \<longrightarrow>
         fst (maybe_send_heartbeat cfg w) = Inr True
         \<and> outbox (snd (maybe_send_heartbeat cfg w)) = outbox w @ [heartbeat_mail]
         \<and> state_file (snd (maybe_send_heartbeat cfg w))
             = Stored (AList.update ''_last_heartbeat'' (clock w (clock_reads w)) (load_state w)))
    \<and> (heartbeat_due cfg w \<and> \<not> can_send cfg \<longrightarrow>
         fst (maybe_send_heartbeat cfg w) = Inr True
         \<and> outbox (snd (maybe_send_heartbeat cfg w)) = outbox w
         \<and> state_file (snd (maybe_send_heartbeat cfg w))
             = Stored (AList.update ''_last_heartbeat'' (clock w (clock_reads w)) (load_state w)))
    \<and> (\<forall>e. heartbeat_due cfg w \<and> can_send cfg \<and> smtp w (smtp_sessions w) = Some e \<longrightarrow>
         fst (maybe_send_heartbeat cfg w) = Inl e
         \<and> outbox (snd (maybe_send_heartbeat cfg w)) = outbox w
         \<and> state_file (snd (maybe_send_heartbeat cfg w)) = state_file w)"
    by (simp add: maybe_send_heartbeat_cases heartbeat_due_def)
  have 2: "\<not> HEARTBEAT_ENABLE cfg \<longrightarrow> maybe_send_heartbeat cfg w = (Inr False, w)"
    by (simp add: maybe_send_heartbeat_cases)
  have 3: "(\<forall>i\<ge>clock_reads w. utc_day (clock w i) = d) \<longrightarrow>
        length (outbox (heartbeat_calls cfg n w)) \<le> Suc (length (outbox w))"
    using heartbeat_at_most_once [of w d cfg n] by blast
  from 1 2 3 show ?thesis by blast
qed

theorem heartbeat_once_per_day_witness:
  "fst (maybe_send_heartbeat demo_cfg noon_world) = Inr True
   \<and> outbox (snd (maybe_send_heartbeat demo_cfg noon_world)) = [heartbeat_mail]
   \<and> last_heartbeat (snd (maybe_send_heartbeat demo_cfg noon_world)) = 110000
   \<and> fst (maybe_send_heartbeat demo_cfg (snd (maybe_send_heartbeat demo_cfg noon_world))) = Inr False
   \<and> length (outbox (heartbeat_calls demo_cfg 5 noon_world)) \<le> 1"
proof -
  let ?w1 = "snd (maybe_send_heartbeat demo_cfg noon_world)"
  have en: "HEARTBEAT_ENABLE demo_cfg \<and> utc_offset demo_cfg = 0"
    by (simp add: demo_cfg_def)
  have due: "heartbeat_due demo_cfg noon_world \<and> can_send demo_cfg
      \<and> smtp noon_world (smtp_sessions noon_world) = None"
    by (simp add: heartbeat_due_def utc_target_def utc_day_def last_heartbeat_def load_state_def
        dict_get_def can_send_def truthy_def demo_cfg_def noon_world_def quiet_world_def)
  note th = heartbeat_once_per_day [of demo_cfg noon_world 1 5]
  from th en due have a: "fst (maybe_send_heartbeat demo_cfg noon_world) = Inr True
         \<and> outbox ?w1 = outbox noon_world @ [heartbeat_mail]
         \<and> state_file ?w1 = Stored (AList.update ''_last_heartbeat''
              (clock noon_world (clock_reads noon_world)) (load_state noon_world))"
    by blast
  have w1: "clock ?w1 = (\<lambda>i. 110000)" "clock_reads ?w1 = 1"
    using heartbeat_reads_clock [of demo_cfg noon_world] en
    by (simp_all add: noon_world_def quiet_world_def)
  have lh: "last_heartbeat ?w1 = 110000"
    using a by (simp add: last_heartbeat_def load_state_def dict_get_def update_conv'
        noon_world_def quiet_world_def)
  have tg: "utc_target demo_cfg 110000 = 108000"
    by (simp add: utc_target_def utc_day_def demo_cfg_def)
  have notdue: "\<not> heartbeat_due demo_cfg ?w1"
    by (simp add: heartbeat_due_def lh w1 tg)
  from heartbeat_once_per_day [of demo_cfg ?w1 1 5] en notdue
  have b: "fst (maybe_send_heartbeat demo_cfg ?w1) = Inr False"
    by blast
  have "\<forall>i\<ge>clock_reads noon_world. utc_day (clock noon_world i) = 1"
    by (simp add: utc_day_def noon_world_def quiet_world_def)
  with th have c: "length (outbox (heartbeat_calls demo_cfg 5 noon_world))
      \<le> Suc (length (outbox noon_world))"
    by blast
  from a b c lh show ?thesis
    by (simp add: noon_world_def quiet_world_def)
qed

theorem heartbeat_once_per_day_counterexample:
  "heartbeat_due demo_cfg noon_world
   \<and> fst (maybe_send_heartbeat (demo_cfg\<lparr>HEARTBEAT_ENABLE := False\<rparr>) noon_world) = Inr False
   \<and> outbox (snd (maybe_send_heartbeat (demo_cfg\<lparr>HEARTBEAT_ENABLE := False\<rparr>) noon_world)) = []
   \<and> fst (maybe_send_heartbeat (demo_cfg\<lparr>SMTP_PASS := None\<rparr>) noon_world) = Inr True
   \<and> outbox (snd (maybe_send_heartbeat (demo_cfg\<lparr>SMTP_PASS := None\<rparr>) noon_world)) = []"
  by (simp add: maybe_send_heartbeat_cases heartbeat_due_def utc_target_def utc_day_def
      last_heartbeat_def load_state_def dict_get_def can_send_def truthy_def demo_cfg_def
      noon_world_def quiet_world_def)

text \<open>
  C4. Retention window. When \<open>run_cycle\<close> is done, the state file holds exactly the entries of
  the in-memory state whose timestamp is not below the cutoff, the clock reading taken
  after the loops minus 90 days: no persisted entry is older than the cutoff; every entry
  newer than the cutoff, loaded from the file or added in this run, is persisted unchanged;
  the reserved key \<open>_last_heartbeat\<close> is evicted like any other; and, the keys of the loaded
  state being distinct (they come from a JSON object), the key of an old loaded entry is
  absent altogether.
\<close>

theorem retention_window:
  "state_file (snd (run_cycle KW L sources w)) = Stored (load_state (snd (run_cycle KW L sources w)))
   \<and> (\<forall>kv\<in>set (load_state (snd (run_cycle KW L sources w))).
         \<not> snd kv < cycle_cutoff KW L sources w)
   \<and> (\<forall>kv\<in>set (load_state w). cycle_cutoff KW L sources w < snd kv
         \<longrightarrow> kv \<in> set (load_state (snd (run_cycle KW L sources w))))
   \<and> (\<forall>kv\<in>set (fst (fst (after_loops KW L sources w))). cycle_cutoff KW L sources w < snd kv
         \<longrightarrow> kv \<in> set (load_state (snd (run_cycle KW L sources w))))
   \<and> (\<forall>v. (''_last_heartbeat'', v) \<in> set (load_state w) \<and> v < cycle_cutoff KW L sources w
         \<longrightarrow> (''_last_heartbeat'', v) \<notin> set (load_state (snd (run_cycle KW L sources w))))
   \<and> (distinct (map fst (load_state w)) \<longrightarrow>
        (\<forall>kv\<in>set (load_state w). snd kv < cycle_cutoff KW L sources w
           \<longrightarrow> fst kv \<notin> fst ` set (load_state (snd (run_cycle KW L sources w)))))"
proof -
  obtain extra where ex: "fst (fst (after_loops KW L sources w)) = load_state w @ extra"
    "fst ` set extra \<inter> fst ` set (load_state w) = {}"
    by (rule after_loops_state [of KW L sources w])
  let ?c = "cycle_cutoff KW L sources w"
  let ?st' = "load_state (snd (run_cycle KW L sources w))"
  have st': "?st' = filter (\<lambda>kv. snd kv \<ge> ?c) (load_state w @ extra)"
    by (simp add: load_saved_state ex(1))
  have 1: "state_file (snd (run_cycle KW L sources w)) = Stored ?st'"
    by (simp add: saved_state load_saved_state)
  have 2: "\<forall>kv\<in>set ?st'. \<not> snd kv < ?c"
    by (auto simp: st')
  have 3: "\<forall>kv\<in>set (load_state w). ?c < snd kv \<longrightarrow> kv \<in> set ?st'"
    by (auto simp: st')
  have 4: "\<forall>kv\<in>set (fst (fst (after_loops KW L sources w))). ?c < snd kv \<longrightarrow> kv \<in> set ?st'"
    by (auto simp: load_saved_state)
  have 5: "\<forall>v. (''_last_heartbeat'', v) \<in> set (load_state w) \<and> v < ?c
             \<longrightarrow> (''_last_heartbeat'', v) \<notin> set ?st'"
    by (auto simp: st')
  have 6: "distinct (map fst (load_state w)) \<longrightarrow>
        (\<forall>kv\<in>set (load_state w). snd kv < ?c \<longrightarrow> fst kv \<notin> fst ` set ?st')"
  proof (intro impI ballI notI)
    fix kv
    assume d: "distinct (map fst (load_state w))" and kv: "kv \<in> set (load_state w)"
      and old: "snd kv < ?c" and "fst kv \<in> fst ` set ?st'"
    then obtain kv' where kv': "kv' \<in> set ?st'" "fst kv' = fst kv" by auto
    then have "kv' \<in> set (load_state w) \<or> kv' \<in> set extra" and new: "snd kv' \<ge> ?c"
      by (auto simp: st')
    then have "kv' \<in> set (load_state w)"
      using ex(2) kv kv'(2) by (metis disjoint_iff image_eqI)
    then have "kv' = kv"
      using d kv kv'(2) by (metis distinct_map inj_onD)
    with old new show False by simp
  qed
  from 1 2 3 4 5 6 show ?thesis by blast
qed


theorem retention_window_witness:
  "(''_last_heartbeat'', 0) \<notin> set (load_state (snd (run_cycle {''erp'', ''web''} demo_lib []
        (stored_world [(''_last_heartbeat'', 0), (''recent'', 8000000)] 8000000))))
   \<and> (''recent'', 8000000) \<in> set (load_state (snd (run_cycle {''erp'', ''web''} demo_lib []
        (stored_world [(''_last_heartbeat'', 0), (''recent'', 8000000)] 8000000))))"
proof -
  let ?w = "stored_world [(''_last_heartbeat'', 0), (''recent'', 8000000)] 8000000"
  have c: "cycle_cutoff {''erp'', ''web''} demo_lib [] ?w = 224000"
    by (simp add: cycle_cutoff_def after_loops_def time_time_def stored_world_def quiet_world_def)
  have st: "load_state ?w = [(''_last_heartbeat'', 0), (''recent'', 8000000)]"
    by (simp add: load_state_def stored_world_def quiet_world_def)
  show ?thesis
    using retention_window [of "{''erp'', ''web''}" demo_lib "[]" ?w]
    by (simp add: c st)
qed



text \<open>
  C6. Adapter failure isolation. An adapter that raises inside \<open>run_cycle\<close> is caught there:
  the run is the same as if that adapter had returned the empty list (\<open>absorb\<close>), so it
  contributes no notice, the other adapters still run, and \<open>checked_count\<close> counts only the
  items of the adapters that returned. For adapters with fixed outcomes the returned pair is
  given in closed form; the last conjunct is the scenario of one crashed and one healthy
  adapter, in either order.
\<close>

theorem adapter_failure_isolation:
  "run_cycle KW L sources w = run_cycle KW L (map absorb sources) w
   \<and> (list_all2 returns sources outs \<longrightarrow>
        fst (run_cycle KW L sources w)
          = (filter (accepted KW L (set (map fst (load_state w))))
               (concat (map (\<lambda>r. case r of Inl e \<Rightarrow> [] | Inr items \<Rightarrow> items) outs)),
             length (concat (map (\<lambda>r. case r of Inl e \<Rightarrow> [] | Inr items \<Rightarrow> items) outs))))
   \<and> (returns crashed (Inl e) \<and> returns healthy (Inr items) \<longrightarrow>
        fst (run_cycle KW L [crashed, healthy] w)
          = (filter (accepted KW L (set (map fst (load_state w)))) items, length items)
        \<and> fst (run_cycle KW L [healthy, crashed] w)
          = (filter (accepted KW L (set (map fst (load_state w)))) items, length items))"
proof (intro conjI impI)
  show "run_cycle KW L sources w = run_cycle KW L (map absorb sources) w"
    by (simp add: run_cycle_absorb)
next
  assume "list_all2 returns sources outs"
  then show "fst (run_cycle KW L sources w)
          = (filter (accepted KW L (set (map fst (load_state w))))
               (concat (map (\<lambda>r. case r of Inl e \<Rightarrow> [] | Inr items \<Rightarrow> items) outs)),
             length (concat (map (\<lambda>r. case r of Inl e \<Rightarrow> [] | Inr items \<Rightarrow> items) outs)))"
    using run_cycle_results [of sources outs KW L w] by (simp add: delivered_def)
next
  assume a: "returns crashed (Inl e) \<and> returns healthy (Inr items)"
  then have "list_all2 returns [crashed, healthy] [Inl e, Inr items]" by simp
  from run_cycle_results [OF this, of KW L w]
  show "fst (run_cycle KW L [crashed, healthy] w)
          = (filter (accepted KW L (set (map fst (load_state w)))) items, length items)"
    by (simp add: delivered_def)
next
  assume a: "returns crashed (Inl e) \<and> returns healthy (Inr items)"
  then have "list_all2 returns [healthy, crashed] [Inr items, Inl e]" by simp
  from run_cycle_results [OF this, of KW L w]
  show "fst (run_cycle KW L [healthy, crashed] w)
          = (filter (accepted KW L (set (map fst (load_state w)))) items, length items)"
    by (simp add: delivered_def)
qed


theorem adapter_failure_isolation_witness:
  "fst (run_cycle {''erp'', ''web''} demo_lib
          [\<lambda>w. (Inl (ParseError ''boom''), w), \<lambda>w. (Inr [erp_notice, chairs_notice], w)]
          (quiet_world 0))
     = ([erp_notice], 2)"
proof -
  have r: "returns (\<lambda>w. (Inl (ParseError ''boom''), w)) (Inl (ParseError ''boom''))
           \<and> returns (\<lambda>w. (Inr [erp_notice, chairs_notice], w)) (Inr [erp_notice, chairs_notice])"
    by (simp add: returns_def)
  have "fst (run_cycle {''erp'', ''web''} demo_lib
          [\<lambda>w. (Inl (ParseError ''boom''), w), \<lambda>w. (Inr [erp_notice, chairs_notice], w)]
          (quiet_world 0))
     = (filter (accepted {''erp'', ''web''} demo_lib (set (map fst (load_state (quiet_world 0)))))
          [erp_notice, chairs_notice], length [erp_notice, chairs_notice])"
    using adapter_failure_isolation [THEN conjunct2, THEN conjunct2, THEN mp, OF r, THEN conjunct1] .
  then show ?thesis
    by (simp add: accepted_def erp_relevant chairs_irrelevant load_state_def quiet_world_def)
qed

text \<open>
  C7. Fingerprint. \<open>uid_hash\<close> is a function of the four fields alone: the hexadecimal
  digest, 64 characters long, of their join with the separator \<open>|\<close> in the order title,
  buyer, deadline, url. Changing one field while the other three are held changes the
  joined text, and then the fingerprint, unless the two joined texts are a collision of
  SHA-256 (the degenerate case).
\<close>

theorem fingerprint_sensitive:
  "uid_hash L title buyer deadline url
     = hexdigest (sha256 L (title @ ''|'' @ buyer @ ''|'' @ deadline @ ''|'' @ url))
   \<and> length (uid_hash L title buyer deadline url) = 64
   \<and> (title' \<noteq> title \<longrightarrow> uid_text title' buyer deadline url \<noteq> uid_text title buyer deadline url)
   \<and> (buyer' \<noteq> buyer \<longrightarrow> uid_text title buyer' deadline url \<noteq> uid_text title buyer deadline url)
   \<and> (deadline' \<noteq> deadline \<longrightarrow> uid_text title buyer deadline' url \<noteq> uid_text title buyer deadline url)
   \<and> (url' \<noteq> url \<longrightarrow> uid_text title buyer deadline url' \<noteq> uid_text title buyer deadline url)
   \<and> (title' \<noteq> title
        \<and> \<not> collision L (uid_text title' buyer deadline url) (uid_text title buyer deadline url)
        \<longrightarrow> uid_hash L title' buyer deadline url \<noteq> uid_hash L title buyer deadline url)
   \<and> (buyer' \<noteq> buyer
        \<and> \<not> collision L (uid_text title buyer' deadline url) (uid_text title buyer deadline url)
        \<longrightarrow> uid_hash L title buyer' deadline url \<noteq> uid_hash L title buyer deadline url)
   \<and> (deadline' \<noteq> deadline
        \<and> \<not> collision L (uid_text title buyer deadline' url) (uid_text title buyer deadline url)
        \<longrightarrow> uid_hash L title buyer deadline' url \<noteq> uid_hash L title buyer deadline url)
   \<and> (url' \<noteq> url
        \<and> \<not> collision L (uid_text title buyer deadline url') (uid_text title buyer deadline url)
        \<longrightarrow> uid_hash L title buyer deadline url' \<noteq> uid_hash L title buyer deadline url)"
proof -
  have differ: "uid_hash L t b d u \<noteq> uid_hash L t' b' d' u'"
    if "uid_text t b d u \<noteq> uid_text t' b' d' u'"
      "\<not> collision L (uid_text t b d u) (uid_text t' b' d' u')" for t b d u t' b' d' u'
  proof
    assume "uid_hash L t b d u = uid_hash L t' b' d' u'"
    then have "sha256 L (uid_text t b d u) = sha256 L (uid_text t' b' d' u')"
      unfolding uid_hash_def by (rule hexdigest_inj)
    with that show False by (simp add: collision_def)
  qed
  show ?thesis
    using differ [of title' buyer deadline url title buyer deadline url]
      differ [of title buyer' deadline url title buyer deadline url]
      differ [of title buyer deadline' url title buyer deadline url]
      differ [of title buyer deadline url' title buyer deadline url]
    by (simp add: uid_text_inj length_uid_hash) (simp add: uid_hash_def uid_text_def)
qed

theorem fingerprint_sensitive_witness:
  "uid_hash demo_lib ''ERP System Tender'' [] [] ''http://x/1''
     \<noteq> uid_hash demo_lib ''ERP System'' [] [] ''http://x/1''
   \<and> uid_hash demo_lib ''ERP System Tender'' [] [] ''http://x/1''
     \<noteq> uid_hash demo_lib ''ERP System Tender'' [] [] ''http://x/12''
   \<and> length (uid_hash demo_lib ''ERP System Tender'' [] [] ''http://x/1'') = 64"
proof -
  have nc1: "''ERP System'' \<noteq> ''ERP System Tender''
     \<and> \<not> collision demo_lib (uid_text ''ERP System'' [] [] ''http://x/1'')
           (uid_text ''ERP System Tender'' [] [] ''http://x/1'')"
    by (simp add: collision_def demo_lib_def uid_text_def)
  have nc2: "''http://x/12'' \<noteq> ''http://x/1''
     \<and> \<not> collision demo_lib (uid_text ''ERP System Tender'' [] [] ''http://x/12'')
           (uid_text ''ERP System Tender'' [] [] ''http://x/1'')"
    by (simp add: collision_def demo_lib_def uid_text_def)
  note th = fingerprint_sensitive [of demo_lib "''ERP System Tender''" "[]" "[]" "''http://x/1''"
      "''ERP System''" _ _ "''http://x/12''"]
  from th nc1 have a: "uid_hash demo_lib ''ERP System'' [] [] ''http://x/1''
     \<noteq> uid_hash demo_lib ''ERP System Tender'' [] [] ''http://x/1''" by blast
  from th nc2 have b: "uid_hash demo_lib ''ERP System Tender'' [] [] ''http://x/12''
     \<noteq> uid_hash demo_lib ''ERP System Tender'' [] [] ''http://x/1''" by blast
  from th have c: "length (uid_hash demo_lib ''ERP System Tender'' [] [] ''http://x/1'') = 64"
    by blast
  from a b c show ?thesis by metis
qed






text \<open>
  C10. Both source adapters score the anchor text alone before they emit. So each adapter
  returns (never raises) a list of notices whose title alone scores at least 1, hence
  whose title, space, url scores at least 1 as well; every notice \<open>run_cycle\<close> returns from
  these adapters has a title that scores at least 1 (none is admitted for keywords found
  only in its url); and for their items the run loop's relevance check always succeeds,
  so that acceptance is decided by the fingerprint alone.
\<close>

theorem adapters_filter_by_title:
  "(\<forall>f\<in>set (SOURCES KW L). \<forall>w. \<exists>ns. fst (f w) = Inr ns
       \<and> (\<forall>n\<in>set ns. relevant_score KW (dict_get n ''title'' []) \<ge> 1
                      \<and> relevant_score KW (text_blob n) \<ge> 1))
   \<and> (\<forall>n\<in>set (fst (fst (run_cycle KW L (SOURCES KW L) w))).
        relevant_score KW (dict_get n ''title'' []) \<ge> 1)
   \<and> (\<forall>f\<in>set (SOURCES KW L). \<forall>w0 items. fst (f w0) = Inr items \<longrightarrow>
        (\<forall>n\<in>set items. accepted KW L seen n \<longleftrightarrow> notice_uid L n \<notin> seen))"
proof -
  have 1: "\<forall>f\<in>set (SOURCES KW L). \<forall>w. \<exists>ns. fst (f w) = Inr ns
       \<and> (\<forall>n\<in>set ns. relevant_score KW (dict_get n ''title'' []) \<ge> 1
                      \<and> relevant_score KW (text_blob n) \<ge> 1)"
    using SOURCES_titles [of _ KW L] relevant_score_blob [of KW] by meson
  have item: "relevant_score KW (dict_get n ''title'' []) \<ge> 1"
    if "f \<in> set (SOURCES KW L)" "fst (f w0) = Inr items" "n \<in> set items" for f w0 items n
    using SOURCES_titles [OF that(1), of w0] that(2,3) by auto
  have 2: "\<forall>n\<in>set (fst (fst (run_cycle KW L (SOURCES KW L) w))).
        relevant_score KW (dict_get n ''title'' []) \<ge> 1"
    by (rule new_notices_from_sources) (rule item)
  have 3: "\<forall>f\<in>set (SOURCES KW L). \<forall>w0 items. fst (f w0) = Inr items \<longrightarrow>
        (\<forall>n\<in>set items. accepted KW L seen n \<longleftrightarrow> notice_uid L n \<notin> seen)"
    using item relevant_score_blob [of KW] by (auto simp: accepted_def)
  from 1 2 3 show ?thesis by blast
qed

theorem adapters_filter_by_title_witness:
  "fst (fetch_ethiopian_tender_com {''erp'', ''web''} page_lib online_world)
     = Inr [mk_notice ''ERP System Tender'' ''https://www.ethiopiantender.com/tender/1''
              ''EthiopianTender.com'']
   \<and> relevant_score {''erp'', ''web''} ''ERP System Tender'' \<ge> 1
   \<and> accepted {''erp'', ''web''} page_lib {}
        (mk_notice ''ERP System Tender'' ''https://www.ethiopiantender.com/tender/1''
              ''EthiopianTender.com'')"
proof -
  let ?KW = "{''erp'', ''web''}"
  let ?n = "mk_notice ''ERP System Tender'' ''https://www.ethiopiantender.com/tender/1''
              ''EthiopianTender.com''"
  have s1: "relevant_score ?KW ''ERP System Tender'' = 1" by code_simp
  have s2: "relevant_score ?KW ''Office Chairs'' = 0" by code_simp
  have ev: "fst (fetch_ethiopian_tender_com ?KW page_lib online_world) = Inr [?n]"
    by (simp add: fetch_ethiopian_tender_com_def fetch_anchor_page_def http_get_cases attempt_def
        page_lib_def demo_lib_def online_world_def quiet_world_def s1 s2)
  have mem: "fetch_ethiopian_tender_com ?KW page_lib \<in> set (SOURCES ?KW page_lib)"
    by (simp add: SOURCES_def)
  note th = adapters_filter_by_title [of ?KW page_lib online_world "{}"]
  from th [THEN conjunct1, THEN bspec, OF mem, THEN spec, of online_world] obtain ns where ns: "fst (fetch_ethiopian_tender_com ?KW page_lib online_world) = Inr ns"
    "\<forall>n\<in>set ns. relevant_score ?KW (dict_get n ''title'' []) \<ge> 1"
    by blast
  from ns ev have "ns = [?n]" by simp
  with ns(2) have "relevant_score ?KW (dict_get ?n ''title'' []) \<ge> 1" by simp
  then have a: "relevant_score ?KW ''ERP System Tender'' \<ge> 1"
    by (simp only: dict_get_mk_notice)
  from th [THEN conjunct2, THEN conjunct2, THEN bspec, OF mem, THEN spec, THEN spec, THEN mp, OF ev]
  have "accepted ?KW page_lib {} ?n \<longleftrightarrow> notice_uid page_lib ?n \<notin> {}"
    by simp
  then have b: "accepted ?KW page_lib {} ?n" by simp
  from ev a b show ?thesis by simp
qed

end
